theory Spec2Isabelle
  imports Main "HOL-Library.Char_ord" "HOL-Library.List_Lexorder" "HOL-Library.Sublist"
begin

section \<open>Level registry and configuration state (logger.go)\<close>

text \<open>
  Modelled from the spec: the level constants \<open>traceLevel\<close> .. \<open>fatalLevel\<close> and the
  label constants \<open>traceLabel\<close> .. \<open>fatalLabel\<close> are declared in a file of the package
  that is not part of the sources at hand. The spec gives seven levels
  trace, debug, info, warn, error, panic, fatal "each with a strictly increasing integer
  rank"; \<open>LogLevel\<close> treats the rank 0 as "name not found", so the ranks start at 1.
\<close>

definition traceLevel :: int where "traceLevel = 1"
definition debugLevel :: int where "debugLevel = 2"
definition infoLevel :: int where "infoLevel = 3"
definition warnLevel :: int where "warnLevel = 4"
definition errorLevel :: int where "errorLevel = 5"
definition panicLevel :: int where "panicLevel = 6"
definition fatalLevel :: int where "fatalLevel = 7"

definition traceLabel :: string where "traceLabel = ''trace''"
definition debugLabel :: string where "debugLabel = ''debug''"
definition infoLabel :: string where "infoLabel = ''info''"
definition warnLabel :: string where "warnLabel = ''warn''"
definition errorLabel :: string where "errorLabel = ''error''"
definition panicLabel :: string where "panicLabel = ''panic''"
definition fatalLabel :: string where "fatalLabel = ''fatal''"

text \<open>\<open>var logLevels = map[string]int{...}\<close>: a Go map read with \<open>m[k]\<close> yields the
  zero value 0 for a key that is absent.\<close>

definition logLevels_tab :: "(string \<times> int) list" where
  "logLevels_tab =
     [(traceLabel, traceLevel), (debugLabel, debugLevel), (infoLabel, infoLevel),
      (warnLabel, warnLevel), (errorLabel, errorLevel), (panicLabel, panicLevel),
      (fatalLabel, fatalLevel)]"

definition logLevels :: "string \<Rightarrow> int" where
  "logLevels k = (case map_of logLevels_tab k of Some r \<Rightarrow> r | None \<Rightarrow> 0)"

text \<open>The package-level variables read by the pipeline. \<open>traceCallerEnabled\<close>,
  \<open>colorEnabled\<close>, \<open>colorMap\<close> and \<open>colorReset\<close> are declared in the absent files and only
  read here; the escape sequences they hold are left open (\<open>colorMap\<close> is the map read with
  \<open>colorMap[level]\<close>).\<close>

record config =
  logLevel :: int
  JSONPrettyPrint :: bool
  obscureSensitiveDataEnabled :: bool
  sensitiveParams :: "string list"
  traceCallerEnabled :: bool
  colorEnabled :: bool
  colorMap :: "string \<Rightarrow> string"
  colorReset :: string

definition initial_config :: config where
  "initial_config = \<lparr> logLevel = infoLevel, JSONPrettyPrint = False,
     obscureSensitiveDataEnabled = False, sensitiveParams = [],
     traceCallerEnabled = False, colorEnabled = False,
     colorMap = (\<lambda>l. []), colorReset = [] \<rparr>"

text \<open>\<open>func LogLevel(level string)\<close>\<close>

definition LogLevel :: "string \<Rightarrow> config \<Rightarrow> config" where
  "LogLevel level c =
     (let c1 = c\<lparr>logLevel := logLevels level\<rparr>
      in if logLevel c1 = 0 then c1\<lparr>logLevel := infoLevel\<rparr> else c1)"

section \<open>Go values and results\<close>

text \<open>
  The arguments of a log call have type \<open>interface{}\<close>. The model keeps the dynamic
  types the pipeline distinguishes (\<open>nil\<close>, \<open>string\<close>) and two primitive types with a known
  rendering; a value of any other dynamic type is kept abstractly as the text that the
  verb \<open>%v\<close> prints for it and the text that \<open>json.Marshal\<close> returns for it (\<open>None\<close> when
  marshalling fails).
\<close>

datatype goval =
    GNil
  | GStr string
  | GInt int
  | GBool bool
  | GOther string "string option"

text \<open>
  A Go call either returns, or panics with a payload, or (in this model) leaves the
  fragment of the standard library that is modelled (\<open>Unmodelled\<close>).
\<close>

datatype 'a result = Ok 'a | Panics string | Unmodelled

subsection \<open>Decimal rendering of integers (\<open>strconv\<close>)\<close>

definition digit_char :: "nat \<Rightarrow> char" where
  "digit_char d = char_of (48 + d)"

text \<open>The digits of a number that is not negative.\<close>

function nat_dec :: "int \<Rightarrow> string" where
  "nat_dec n =
     (if n < 10 then [digit_char (nat n)]
      else nat_dec (n div 10) @ [digit_char (nat (n mod 10))])"
  by pat_completeness auto
termination
  by (relation "measure nat") auto

declare nat_dec.simps [simp del]

definition int_dec :: "int \<Rightarrow> string" where
  "int_dec i = (if i < 0 then CHR ''-'' # nat_dec (- i) else nat_dec i)"

subsection \<open>\<open>fmt\<close>: the verb \<open>%v\<close> and type names\<close>

fun fmt_v :: "goval \<Rightarrow> string" where
  "fmt_v GNil = ''<nil>''"
| "fmt_v (GStr s) = s"
| "fmt_v (GInt i) = int_dec i"
| "fmt_v (GBool b) = (if b then ''true'' else ''false'')"
| "fmt_v (GOther v j) = v"

text \<open>\<open>reflect.TypeOf(arg).String()\<close> for the types whose name the model knows.\<close>

fun type_name :: "goval \<Rightarrow> string option" where
  "type_name GNil = None"
| "type_name (GStr s) = Some ''string''"
| "type_name (GInt i) = Some ''int''"
| "type_name (GBool b) = Some ''bool''"
| "type_name (GOther v j) = None"

text \<open>\<open>p.badVerb(verb)\<close>: \<open>%!verb(type=value)\<close>, and \<open>%!verb(<nil>)\<close> for a nil operand.\<close>

fun badVerb :: "char \<Rightarrow> goval \<Rightarrow> string option" where
  "badVerb verb GNil = Some (''%!'' @ [verb] @ ''(<nil>)'')"
| "badVerb verb a =
     (case type_name a of
        None \<Rightarrow> None
      | Some ty \<Rightarrow> Some (''%!'' @ [verb] @ ''('' @ ty @ ''='' @ fmt_v a @ '')''))"

text \<open>\<open>p.printArg(arg, verb)\<close> for the verbs \<open>v\<close>, \<open>d\<close>, \<open>s\<close>, \<open>t\<close> without flags;
  \<open>None\<close> for every other verb.\<close>

fun printArg :: "goval \<Rightarrow> char \<Rightarrow> string option" where
  "printArg a verb =
     (if verb = CHR ''v'' then Some (fmt_v a)
      else if verb = CHR ''d'' then
        (case a of GInt i \<Rightarrow> Some (int_dec i) | GOther v j \<Rightarrow> None | _ \<Rightarrow> badVerb verb a)
      else if verb = CHR ''s'' then
        (case a of GStr s \<Rightarrow> Some s | GOther v j \<Rightarrow> None | _ \<Rightarrow> badVerb verb a)
      else if verb = CHR ''t'' then
        (case a of GBool b \<Rightarrow> Some (fmt_v a) | GOther v j \<Rightarrow> None | _ \<Rightarrow> badVerb verb a)
      else None)"

text \<open>The check for operands left over once the format is used up:
  \<open>%!(EXTRA type=value, ...)\<close>.\<close>

fun extra_items :: "goval list \<Rightarrow> string option" where
  "extra_items [] = Some []"
| "extra_items (a # as) =
     (case (if a = GNil then Some ''<nil>''
            else (case type_name a of None \<Rightarrow> None
                  | Some ty \<Rightarrow> Some (ty @ ''='' @ fmt_v a))) of
        None \<Rightarrow> None
      | Some x \<Rightarrow>
          (case extra_items as of
             None \<Rightarrow> None
           | Some r \<Rightarrow> Some (x @ (if as = [] then [] else '', '') @ r)))"

definition extra_args :: "goval list \<Rightarrow> string option" where
  "extra_args as =
     (if as = [] then Some []
      else (case extra_items as of None \<Rightarrow> None
            | Some r \<Rightarrow> Some (''%!(EXTRA '' @ r @ '')'')))"

text \<open>
  \<open>fmt.Sprintf(format, a...)\<close> with at least one operand, for formats built from literal
  text, \<open>%%\<close> and the plain verbs above (no flags, width, precision or argument index).
  The operand list carried along is \<open>a[argNum:]\<close>. \<open>None\<close>: the format or an operand is
  outside this fragment.
\<close>

fun doPrintf :: "string \<Rightarrow> goval list \<Rightarrow> string option" where
  "doPrintf [] as = extra_args as"
| "doPrintf (c # cs) as =
     (if c \<noteq> CHR ''%'' then map_option ((#) c) (doPrintf cs as)
      else (case cs of
          [] \<Rightarrow> map_option ((@) ''%!(NOVERB)'') (extra_args as)
        | verb # rest \<Rightarrow>
            if verb = CHR ''%'' then map_option ((#) CHR ''%'') (doPrintf rest as)
            else if verb \<in> set ''vdst'' then
              (case as of
                 [] \<Rightarrow> map_option ((@) (''%!'' @ [verb] @ ''(MISSING)'')) (doPrintf rest [])
               | a # as' \<Rightarrow>
                   (case printArg a verb of
                      None \<Rightarrow> None
                    | Some out \<Rightarrow> map_option ((@) out) (doPrintf rest as')))
            else None))"

definition Sprintf :: "string \<Rightarrow> goval list \<Rightarrow> string option" where
  "Sprintf format a = doPrintf format a"

section \<open>\<open>encoding/json\<close>: validity and decoding into \<open>interface{}\<close>\<close>

text \<open>
  \<open>json.Valid\<close> and \<open>json.Unmarshal\<close> belong to the Go standard library. They are modelled
  the way the library's scanner works: a state machine over the bytes of the text with a
  stack of open arrays and objects (at most 10000 deep), here building the value as it goes.
  A string value holds the bytes between its quotes as written; \<open>unquote\<close> decodes them.
  A number is kept as its literal (the library stores the \<open>float64\<close> it denotes).
\<close>

datatype json =
    JNull
  | JBool bool
  | JNum string
  | JStr string
  | JArr "json list"
  | JObj "(string \<times> json) list"

datatype frame =
    FArr "json list"
  | FObj "(string \<times> json) list" "string option"

datatype numstate = NNeg | NZero | NInt | NDot | NFrac | NE | NESign | NExp

datatype scan =
    SBeginValue
  | SBeginValueOrEmpty
  | SBeginStringOrEmpty
  | SBeginString
  | SInString bool string
  | SInStringEsc bool string
  | SInStringU nat bool string
  | SNum numstate string
  | SLit string json
  | SObjColon
  | SAfterValue
  | SEndTop json
  | SError

definition maxNestingDepth :: nat where "maxNestingDepth = 10000"

definition isSpace :: "char \<Rightarrow> bool" where
  "isSpace c = (c = CHR '' '' \<or> c = CHR 0x09 \<or> c = CHR 0x0D \<or> c = CHR 0x0A)"

definition isDigit :: "char \<Rightarrow> bool" where
  "isDigit c = (CHR ''0'' \<le> c \<and> c \<le> CHR ''9'')"

definition isHex :: "char \<Rightarrow> bool" where
  "isHex c = (isDigit c \<or> (CHR ''a'' \<le> c \<and> c \<le> CHR ''f'') \<or> (CHR ''A'' \<le> c \<and> c \<le> CHR ''F''))"

text \<open>A value is complete: it becomes the top-level result, the next element of the open
  array, or the value of the pending key of the open object.\<close>

fun complete :: "json \<Rightarrow> frame list \<Rightarrow> scan \<times> frame list" where
  "complete v [] = (SEndTop v, [])"
| "complete v (FArr items # fs) = (SAfterValue, FArr (v # items) # fs)"
| "complete v (FObj kvs (Some k) # fs) = (SAfterValue, FObj ((k, v) # kvs) None # fs)"
| "complete v (FObj kvs None # fs) = (SError, [])"

definition push :: "frame \<Rightarrow> scan \<Rightarrow> frame list \<Rightarrow> scan \<times> frame list" where
  "push f st fs = (if length fs \<ge> maxNestingDepth then (SError, []) else (st, f # fs))"

definition begin_value :: "char \<Rightarrow> frame list \<Rightarrow> scan \<times> frame list" where
  "begin_value c fs =
     (if c = CHR ''{'' then push (FObj [] None) SBeginStringOrEmpty fs
      else if c = CHR ''['' then push (FArr []) SBeginValueOrEmpty fs
      else if c = CHR 0x22 then (SInString False [], fs)
      else if c = CHR ''-'' then (SNum NNeg [c], fs)
      else if c = CHR ''0'' then (SNum NZero [c], fs)
      else if isDigit c then (SNum NInt [c], fs)
      else if c = CHR ''t'' then (SLit ''rue'' (JBool True), fs)
      else if c = CHR ''f'' then (SLit ''alse'' (JBool False), fs)
      else if c = CHR ''n'' then (SLit ''ull'' JNull, fs)
      else (SError, []))"

text \<open>The byte after a complete value: a separator or the end of the open container.\<close>

definition after_value :: "scan \<Rightarrow> char \<Rightarrow> frame list \<Rightarrow> scan \<times> frame list" where
  "after_value st c fs =
     (if isSpace c then (st, fs)
      else (case fs of
          [] \<Rightarrow> (SError, [])
        | FArr items # fs' \<Rightarrow>
            if c = CHR '','' then (SBeginValue, fs)
            else if c = CHR '']'' then complete (JArr (rev items)) fs'
            else (SError, [])
        | FObj kvs k # fs' \<Rightarrow>
            if c = CHR '','' then (SBeginString, fs)
            else if c = CHR ''}'' then complete (JObj (rev kvs)) fs'
            else (SError, [])))"

definition num_final :: "numstate \<Rightarrow> bool" where
  "num_final ns = (ns = NZero \<or> ns = NInt \<or> ns = NFrac \<or> ns = NExp)"

definition finish_num :: "numstate \<Rightarrow> string \<Rightarrow> char \<Rightarrow> frame list \<Rightarrow> scan \<times> frame list" where
  "finish_num ns acc c fs =
     (if num_final ns
      then (case complete (JNum (rev acc)) fs of (st, fs') \<Rightarrow> after_value st c fs')
      else (SError, []))"

definition isExp :: "char \<Rightarrow> bool" where
  "isExp c = (c = CHR ''e'' \<or> c = CHR ''E'')"

fun num_step :: "numstate \<Rightarrow> char \<Rightarrow> numstate option" where
  "num_step NNeg c = (if c = CHR ''0'' then Some NZero else if isDigit c then Some NInt else None)"
| "num_step NZero c = (if c = CHR ''.'' then Some NDot else if isExp c then Some NE else None)"
| "num_step NInt c =
     (if isDigit c then Some NInt else if c = CHR ''.'' then Some NDot
      else if isExp c then Some NE else None)"
| "num_step NDot c = (if isDigit c then Some NFrac else None)"
| "num_step NFrac c = (if isDigit c then Some NFrac else if isExp c then Some NE else None)"
| "num_step NE c =
     (if c = CHR ''+'' \<or> c = CHR ''-'' then Some NESign else if isDigit c then Some NExp else None)"
| "num_step NESign c = (if isDigit c then Some NExp else None)"
| "num_step NExp c = (if isDigit c then Some NExp else None)"

definition end_string :: "bool \<Rightarrow> string \<Rightarrow> frame list \<Rightarrow> scan \<times> frame list" where
  "end_string key acc fs =
     (if key then
        (case fs of
           FObj kvs None # fs' \<Rightarrow> (SObjColon, FObj kvs (Some (rev acc)) # fs')
         | _ \<Rightarrow> (SError, []))
      else complete (JStr (rev acc)) fs)"

fun step :: "scan \<times> frame list \<Rightarrow> char \<Rightarrow> scan \<times> frame list" where
  "step (SBeginValue, fs) c = (if isSpace c then (SBeginValue, fs) else begin_value c fs)"
| "step (SBeginValueOrEmpty, fs) c =
     (if isSpace c then (SBeginValueOrEmpty, fs)
      else if c = CHR '']'' then
        (case fs of FArr items # fs' \<Rightarrow> complete (JArr (rev items)) fs' | _ \<Rightarrow> (SError, []))
      else begin_value c fs)"
| "step (SBeginStringOrEmpty, fs) c =
     (if isSpace c then (SBeginStringOrEmpty, fs)
      else if c = CHR ''}'' then
        (case fs of FObj kvs k # fs' \<Rightarrow> complete (JObj (rev kvs)) fs' | _ \<Rightarrow> (SError, []))
      else if c = CHR 0x22 then (SInString True [], fs)
      else (SError, []))"
| "step (SBeginString, fs) c =
     (if isSpace c then (SBeginString, fs)
      else if c = CHR 0x22 then (SInString True [], fs)
      else (SError, []))"
| "step (SInString key acc, fs) c =
     (if c = CHR 0x22 then end_string key acc fs
      else if c = CHR 0x5C then (SInStringEsc key (c # acc), fs)
      else if c < CHR 0x20 then (SError, [])
      else (SInString key (c # acc), fs))"
| "step (SInStringEsc key acc, fs) c =
     (if c \<in> set [CHR ''b'', CHR ''f'', CHR ''n'', CHR ''r'', CHR ''t'', CHR 0x5C, CHR ''/'', CHR 0x22]
      then (SInString key (c # acc), fs)
      else if c = CHR ''u'' then (SInStringU 4 key (c # acc), fs)
      else (SError, []))"
| "step (SInStringU n key acc, fs) c =
     (if isHex c then
        (if n \<le> 1 then (SInString key (c # acc), fs) else (SInStringU (n - 1) key (c # acc), fs))
      else (SError, []))"
| "step (SNum ns acc, fs) c =
     (case num_step ns c of
        Some ns' \<Rightarrow> (SNum ns' (c # acc), fs)
      | None \<Rightarrow> finish_num ns acc c fs)"
| "step (SLit [] v, fs) c = (SError, [])"
| "step (SLit (x # xs) v, fs) c =
     (if c = x then (if xs = [] then complete v fs else (SLit xs v, fs)) else (SError, []))"
| "step (SObjColon, fs) c =
     (if isSpace c then (SObjColon, fs)
      else if c = CHR '':'' then (SBeginValue, fs)
      else (SError, []))"
| "step (SAfterValue, fs) c = after_value SAfterValue c fs"
| "step (SEndTop v, fs) c = after_value (SEndTop v) c fs"
| "step (SError, fs) c = (SError, [])"

text \<open>End of input: the text is one JSON value when the scanner is past a top-level value,
  or inside a top-level number that may end here.\<close>

fun scan_eof :: "scan \<times> frame list \<Rightarrow> json option" where
  "scan_eof (SEndTop v, fs) = Some v"
| "scan_eof (SNum ns acc, fs) = (if num_final ns \<and> fs = [] then Some (JNum (rev acc)) else None)"
| "scan_eof (st, fs) = None"

definition json_scan :: "string \<Rightarrow> json option" where
  "json_scan s = scan_eof (foldl step (SBeginValue, []) s)"

definition json_Valid :: "string \<Rightarrow> bool" where
  "json_Valid s = (json_scan s \<noteq> None)"

text \<open>Decoding the bytes of a string literal. \<open>None\<close>: the literal has a \<open>\u\<close> escape or a
  byte outside ASCII, whose decoding (UTF-16 surrogates, replacement of invalid UTF-8) is
  not modelled.\<close>

fun unquote :: "string \<Rightarrow> string option" where
  "unquote [] = Some []"
| "unquote [c] = (if c = CHR 0x5C \<or> c \<ge> CHR 0x80 then None else Some [c])"
| "unquote (c # d # cs) =
     (if c = CHR 0x5C then
        (if d = CHR ''u'' then None
         else map_option ((#) (if d = CHR ''b'' then CHR 0x08 else if d = CHR ''f'' then CHR 0x0C
                else if d = CHR ''n'' then CHR 0x0A else if d = CHR ''r'' then CHR 0x0D
                else if d = CHR ''t'' then CHR 0x09 else d)) (unquote cs))
      else if c \<ge> CHR 0x80 then None
      else map_option ((#) c) (unquote (d # cs)))"

text \<open>
  A number is converted with \<open>strconv.ParseFloat\<close>, which fails when the literal is out of
  the range of \<open>float64\<close>: when its magnitude reaches \<open>2^1024 - 2^970\<close>, half a unit in the
  last place above the largest \<open>float64\<close>. The literal denotes \<open>m * 10^e\<close> for the integer
  \<open>m\<close> of its digits and the exponent \<open>e\<close> below.
\<close>

definition digits_val :: "string \<Rightarrow> int" where
  "digits_val ds = foldl (\<lambda>a c. a * 10 + (int (of_char c) - 48)) 0 ds"

definition num_parts :: "string \<Rightarrow> int \<times> int" where
  "num_parts n =
     (let body = (if n \<noteq> [] \<and> hd n = CHR ''-'' then tl n else n);
          ip = takeWhile isDigit body;
          r1 = dropWhile isDigit body;
          fp = (if r1 \<noteq> [] \<and> hd r1 = CHR ''.'' then takeWhile isDigit (tl r1) else []);
          r2 = (if r1 \<noteq> [] \<and> hd r1 = CHR ''.'' then dropWhile isDigit (tl r1) else r1);
          ex = (if r2 \<noteq> [] \<and> isExp (hd r2) then
                  (let r3 = tl r2
                   in if r3 \<noteq> [] \<and> hd r3 = CHR ''-'' then - digits_val (tl r3)
                      else if r3 \<noteq> [] \<and> hd r3 = CHR ''+'' then digits_val (tl r3)
                      else digits_val r3)
                else 0)
      in (digits_val (ip @ fp), ex - int (length fp)))"

definition float64_limit :: int where
  "float64_limit = 2 ^ 1024 - 2 ^ 970"

definition float64_overflow :: "string \<Rightarrow> bool" where
  "float64_overflow n =
     (case num_parts n of
        (m, e) \<Rightarrow>
          if e \<ge> 0 then m * 10 ^ nat e \<ge> float64_limit
          else m \<ge> float64_limit * 10 ^ nat (- e))"

text \<open>An object decodes into a \<open>map[string]interface{}\<close>: a later duplicate of a key replaces
  the earlier one and the map has no order. A map is written here with its keys sorted
  (as the encoder writes it), each key once.\<close>

definition map_entries :: "(string \<times> 'a) list \<Rightarrow> (string \<times> 'a) list" where
  "map_entries kvs =
     concat (map (\<lambda>k. case map_of (rev kvs) k of Some v \<Rightarrow> [(k, v)] | None \<Rightarrow> [])
                 (sort (remdups (map fst kvs))))"

text \<open>Decoding gives the value stored and whether an error was saved. The only error after
  a successful scan is a number out of range: \<open>nil\<close> stands in its place, and decoding goes
  on. \<open>None\<close>: a string of the text is outside what \<open>unquote\<close> models.\<close>

fun decode_elements :: "(json \<times> bool) option list \<Rightarrow> (json list \<times> bool) option" where
  "decode_elements [] = Some ([], False)"
| "decode_elements (Some (v, e) # r) =
     map_option (\<lambda>(vs, e'). (v # vs, e \<or> e')) (decode_elements r)"
| "decode_elements (None # r) = None"

fun decode_members ::
  "(string option \<times> (json \<times> bool) option) list \<Rightarrow> ((string \<times> json) list \<times> bool) option" where
  "decode_members [] = Some ([], False)"
| "decode_members ((Some k, Some (v, e)) # r) =
     map_option (\<lambda>(kvs, e'). ((k, v) # kvs, e \<or> e')) (decode_members r)"
| "decode_members (x # r) = None"

fun decode :: "json \<Rightarrow> (json \<times> bool) option" where
  "decode JNull = Some (JNull, False)"
| "decode (JBool b) = Some (JBool b, False)"
| "decode (JNum n) = Some (if float64_overflow n then (JNull, True) else (JNum n, False))"
| "decode (JStr s) = map_option (\<lambda>x. (JStr x, False)) (unquote s)"
| "decode (JArr vs) =
     map_option (\<lambda>(xs, e). (JArr xs, e)) (decode_elements (map decode vs))"
| "decode (JObj kvs) =
     map_option (\<lambda>(ms, e). (JObj (map_entries ms), e))
       (decode_members (map (\<lambda>(k, v). (unquote k, decode v)) kvs))"

text \<open>\<open>json.Unmarshal(data, &obj)\<close> for \<open>var obj interface{}\<close>: what \<open>obj\<close> holds afterwards and
  whether an error is returned.\<close>

definition json_Unmarshal :: "string \<Rightarrow> (json \<times> bool) option" where
  "json_Unmarshal s = (case json_scan s of None \<Rightarrow> None | Some v \<Rightarrow> decode v)"

text \<open>
  \<open>json.Marshal\<close>. The result is the text, an error (\<open>EncError\<close>; the callers in logger.go
  drop the error and go on with the empty text), or outside the model.
\<close>

datatype enc = Enc string | EncError | EncUnmodelled

text \<open>A string literal as the encoder writes it (HTML-safe escaping is on by default).
  \<open>None\<close>: the string has a control character other than newline, carriage return and
  tab, or a byte outside ASCII.\<close>

definition quote_char :: "char \<Rightarrow> string option" where
  "quote_char c =
     (if c = CHR 0x22 then Some [CHR 0x5C, CHR 0x22]
      else if c = CHR 0x5C then Some [CHR 0x5C, CHR 0x5C]
      else if c = CHR 0x0A then Some [CHR 0x5C, CHR ''n'']
      else if c = CHR 0x0D then Some [CHR 0x5C, CHR ''r'']
      else if c = CHR 0x09 then Some [CHR 0x5C, CHR ''t'']
      else if c = CHR ''<'' then Some (CHR 0x5C # ''u003c'')
      else if c = CHR ''>'' then Some (CHR 0x5C # ''u003e'')
      else if c = CHR ''&'' then Some (CHR 0x5C # ''u0026'')
      else if c < CHR 0x20 \<or> c \<ge> CHR 0x80 then None
      else Some [c])"

definition json_quote :: "string \<Rightarrow> string option" where
  "json_quote s = map_option (\<lambda>xs. [CHR 0x22] @ concat xs @ [CHR 0x22]) (those (map quote_char s))"

definition enc_of :: "string option \<Rightarrow> enc" where
  "enc_of x = (case x of Some t \<Rightarrow> Enc t | None \<Rightarrow> EncUnmodelled)"

fun marshal_goval :: "goval \<Rightarrow> enc" where
  "marshal_goval GNil = Enc ''null''"
| "marshal_goval (GStr s) = enc_of (json_quote s)"
| "marshal_goval (GInt i) = Enc (int_dec i)"
| "marshal_goval (GBool b) = Enc (if b then ''true'' else ''false'')"
| "marshal_goval (GOther v j) = (case j of Some t \<Rightarrow> Enc t | None \<Rightarrow> EncError)"

text \<open>A decoded number is a \<open>float64\<close>; it is written back with the same digits when its
  literal is an integer of at most 15 digits. Other literals are outside the model.\<close>

definition int_literal :: "string \<Rightarrow> bool" where
  "int_literal n =
     (let ds = (if n \<noteq> [] \<and> hd n = CHR ''-'' then tl n else n)
      in ds \<noteq> [] \<and> length ds \<le> 15 \<and> list_all isDigit ds)"

fun join :: "string \<Rightarrow> string list \<Rightarrow> string" where
  "join sep [] = []"
| "join sep [x] = x"
| "join sep (x # y # r) = x @ sep @ join sep (y # r)"

text \<open>The encoder writes the keys of a map in sorted order.\<close>

fun marshal_json :: "json \<Rightarrow> string option" where
  "marshal_json JNull = Some ''null''"
| "marshal_json (JBool b) = Some (if b then ''true'' else ''false'')"
| "marshal_json (JNum n) = (if int_literal n then Some n else None)"
| "marshal_json (JStr s) = json_quote s"
| "marshal_json (JArr vs) =
     map_option (\<lambda>xs. ''['' @ join '','' xs @ '']'') (those (map marshal_json vs))"
| "marshal_json (JObj kvs) =
     (case those (map (\<lambda>kv. map_option (Pair (fst kv)) (marshal_json (snd kv))) kvs) of
        None \<Rightarrow> None
      | Some kts \<Rightarrow>
          map_option (\<lambda>xs. ''{'' @ join '','' xs @ ''}'')
            (those (map (\<lambda>(k, t). map_option (\<lambda>q. q @ '':'' @ t) (json_quote k))
                        (map_entries kts))))"

section \<open>\<open>regexp\<close>: the two patterns of \<open>obscureParam\<close>\<close>

text \<open>
  \<open>obscureParam\<close> compiles two patterns around the field name and replaces every match.
  The replacement is modelled for field names that the pattern language reads literally
  (ASCII, none of its metacharacters, which also keeps \<open>$\<close> out of the replacement
  template). For such a name the second pattern is: the literal \<open>"name":\<close>, then \<open>.*?"\<close>, the
  shortest run of characters other than newline up to a quote, then \<open>(.*?)"\<close>, again the
  shortest such run up to a quote. The first pattern has \<open>\"name\":\<close> as its literal and ends
  with \<open>(.*?)\"\<close>, the shortest run up to a backslash followed by a quote. Matches are found
  leftmost first and do not overlap.
\<close>

definition regexp_literal :: "string \<Rightarrow> bool" where
  "regexp_literal p =
     list_all (\<lambda>c. c < CHR 0x80 \<and> c \<notin> set ([CHR 0x5C] @ ''.+*?()|[]{}^$'')) p"

text \<open>
  \<open>regexp.MustCompile\<close> panics on a pattern that does not parse. One class of such names is
  modelled: a name with an opening parenthesis and nothing to close it, literal otherwise
  (printable ASCII without backquote, at most 500 parentheses). The first pattern then fails
  with \<open>missing closing )\<close>, and the payload of the panic names that pattern twice.
\<close>

definition unclosed_paren :: "string \<Rightarrow> bool" where
  "unclosed_paren p =
     (CHR ''('' \<in> set p \<and> count_list p CHR ''('' \<le> 500
      \<and> regexp_literal (filter (\<lambda>c. c \<noteq> CHR ''('') p)
      \<and> list_all (\<lambda>c. CHR 0x20 \<le> c \<and> c \<noteq> CHR 0x7F \<and> c \<noteq> CHR 0x60) p)"

definition slash_pattern :: "string \<Rightarrow> string" where
  "slash_pattern param =
     [CHR 0x5C, CHR 0x5C, CHR 0x22] @ param @ [CHR 0x5C, CHR 0x5C, CHR 0x22] @
     '':.*?\"(.*?)'' @ [CHR 0x5C, CHR 0x5C, CHR 0x22]"

definition mustCompile_panic :: "string \<Rightarrow> string" where
  "mustCompile_panic pat =
     ''regexp: Compile('' @ [CHR 0x60] @ pat @ [CHR 0x60] @
     ''): error parsing regexp: missing closing ): '' @ [CHR 0x60] @ pat @ [CHR 0x60]"

text \<open>\<open>.*?"\<close>: the rest of the text after the first quote, if no newline comes before it.\<close>

fun upto_quote :: "string \<Rightarrow> string option" where
  "upto_quote [] = None"
| "upto_quote (c # cs) =
     (if c = CHR 0x22 then Some cs else if c = CHR 0x0A then None else upto_quote cs)"

text \<open>\<open>.*?\"\<close>: the rest after the first backslash-quote, if no newline comes before it.\<close>

fun upto_bsquote :: "string \<Rightarrow> string option" where
  "upto_bsquote [] = None"
| "upto_bsquote [c] = None"
| "upto_bsquote (c # d # cs) =
     (if c = CHR 0x5C \<and> d = CHR 0x22 then Some cs
      else if c = CHR 0x0A then None
      else upto_bsquote (d # cs))"

definition match_plain :: "string \<Rightarrow> string \<Rightarrow> string option" where
  "match_plain lit s =
     (if prefix lit s
      then (case upto_quote (drop (length lit) s) of None \<Rightarrow> None | Some r \<Rightarrow> upto_quote r)
      else None)"

definition match_slash :: "string \<Rightarrow> string \<Rightarrow> string option" where
  "match_slash lit s =
     (if prefix lit s
      then (case upto_quote (drop (length lit) s) of None \<Rightarrow> None | Some r \<Rightarrow> upto_bsquote r)
      else None)"

text \<open>\<open>ReplaceAllString\<close>: \<open>m s\<close> is the text after a match that starts at the head of \<open>s\<close>.
  The counter is the number of bytes still inside the last match.\<close>

fun replace_all :: "(string \<Rightarrow> string option) \<Rightarrow> string \<Rightarrow> nat \<Rightarrow> string \<Rightarrow> string" where
  "replace_all m repl skip [] = []"
| "replace_all m repl skip (c # cs) =
     (if skip > 0 then replace_all m repl (skip - 1) cs
      else (case m (c # cs) of
              None \<Rightarrow> c # replace_all m repl 0 cs
            | Some r \<Rightarrow> repl @ replace_all m repl (length (c # cs) - length r - 1) cs))"

definition mask :: string where "mask = ''**********''"

subsection \<open>\<open>fmt\<close>: a format with no operands\<close>

text \<open>
  \<open>fmt.Fprintf(w, format)\<close> with an empty operand list, after \<open>doPrintf\<close> of the library:
  text up to a percent sign is copied; after it come flags, an argument index in brackets,
  a width, a precision, again an index, and the verb. With no operand every verb other
  than \<open>%\<close> prints an error marker, \<open>*\<close> prints \<open>%!(BADWIDTH)\<close> or \<open>%!(BADPREC)\<close>, and a
  format that ends inside a directive prints \<open>%!(NOVERB)\<close>.
\<close>

definition isFlag :: "char \<Rightarrow> bool" where
  "isFlag c = (c \<in> set ''#0+- '')"

text \<open>\<open>parsenum\<close>: whether digits were read, and the text after them. Once the number read
  so far exceeds \<open>1e6\<close> and another digit follows, the library gives up and reports the end
  of the text as the new position.\<close>

fun parsenum :: "int \<Rightarrow> bool \<Rightarrow> string \<Rightarrow> bool \<times> string" where
  "parsenum num isnum [] = (isnum, [])"
| "parsenum num isnum (c # cs) =
     (if isDigit c then
        (if num > 1000000 then (False, [])
         else parsenum (num * 10 + (of_char c - 48)) True cs)
      else (isnum, c # cs))"

text \<open>\<open>parseArgNumber\<close> on a text that starts with \<open>[\<close>: the number of bytes to skip and
  whether the brackets hold a number.\<close>

definition parseArgNumber :: "string \<Rightarrow> nat \<times> bool" where
  "parseArgNumber s =
     (if length s < 3 then (1, False)
      else if CHR '']'' \<in> set (tl s) then
        (let content = takeWhile (\<lambda>c. c \<noteq> CHR '']'') (tl s)
         in (length content + 2, parsenum 0 False content = (True, [])))
      else (1, False))"

text \<open>\<open>argNumber\<close> with no operands: the text after the index, whether an index was found,
  and whether \<open>goodArgNum\<close> survives (no index is in range when there are no operands).\<close>

definition argNumber :: "string \<Rightarrow> bool \<Rightarrow> string \<times> bool \<times> bool" where
  "argNumber s good =
     (case s of
        [] \<Rightarrow> (s, False, good)
      | c # cs \<Rightarrow>
          if c \<noteq> CHR ''['' then (s, False, good)
          else (case parseArgNumber s of (wid, ok) \<Rightarrow> (drop wid s, ok, False)))"

text \<open>\<open>utf8.DecodeRuneInString\<close> followed by \<open>writeRune\<close>: the bytes written for the verb and
  the number of bytes read. An invalid encoding reads one byte and writes the replacement
  character.\<close>

text \<open>The ranges of the continuation bytes that may follow a leading byte (the tables
  \<open>first\<close> and \<open>acceptRanges\<close> of the library).\<close>

definition lead :: "char \<Rightarrow> (char \<times> char) list option" where
  "lead b0 =
     (if CHR 0xC2 \<le> b0 \<and> b0 \<le> CHR 0xDF then Some [(CHR 0x80, CHR 0xBF)]
      else if b0 = CHR 0xE0 then Some [(CHR 0xA0, CHR 0xBF), (CHR 0x80, CHR 0xBF)]
      else if b0 = CHR 0xED then Some [(CHR 0x80, CHR 0x9F), (CHR 0x80, CHR 0xBF)]
      else if CHR 0xE1 \<le> b0 \<and> b0 \<le> CHR 0xEF then Some [(CHR 0x80, CHR 0xBF), (CHR 0x80, CHR 0xBF)]
      else if b0 = CHR 0xF0
        then Some [(CHR 0x90, CHR 0xBF), (CHR 0x80, CHR 0xBF), (CHR 0x80, CHR 0xBF)]
      else if b0 = CHR 0xF4
        then Some [(CHR 0x80, CHR 0x8F), (CHR 0x80, CHR 0xBF), (CHR 0x80, CHR 0xBF)]
      else if CHR 0xF1 \<le> b0 \<and> b0 \<le> CHR 0xF3
        then Some [(CHR 0x80, CHR 0xBF), (CHR 0x80, CHR 0xBF), (CHR 0x80, CHR 0xBF)]
      else None)"

fun conts :: "(char \<times> char) list \<Rightarrow> string \<Rightarrow> bool" where
  "conts [] r = True"
| "conts ((lo, hi) # rs) [] = False"
| "conts ((lo, hi) # rs) (c # cs) = (lo \<le> c \<and> c \<le> hi \<and> conts rs cs)"

text \<open>The length of the encoding at the head of the text; 0 when it is not valid.\<close>

definition rune_size :: "string \<Rightarrow> nat" where
  "rune_size s =
     (case s of
        [] \<Rightarrow> 0
      | b0 # r \<Rightarrow>
          if b0 < CHR 0x80 then 1
          else (case lead b0 of
                  None \<Rightarrow> 0
                | Some rs \<Rightarrow> if conts rs r then 1 + length rs else 0))"

definition decode_verb :: "string \<Rightarrow> string \<times> nat" where
  "decode_verb s =
     (let n = rune_size s
      in if n = 0 then ([CHR 0xEF, CHR 0xBF, CHR 0xBD], 1) else (take n s, n))"

text \<open>The width: \<open>*\<close> takes the width from an operand, and there is none; otherwise digits.
  The results are what is written, the text that follows, \<open>afterIndex\<close> and \<open>goodArgNum\<close>.\<close>

definition width0 :: "string \<Rightarrow> bool \<Rightarrow> bool \<Rightarrow> string \<times> string \<times> bool \<times> bool" where
  "width0 s afterIndex good =
     (if s \<noteq> [] \<and> hd s = CHR ''*''
      then (''%!(BADWIDTH)'', tl s, False, good)
      else (case parsenum 0 False s of
              (widPresent, r) \<Rightarrow> ([], r, afterIndex, good \<and> \<not> (afterIndex \<and> widPresent))))"

text \<open>The precision, after a dot that is not the last byte of the format
  (\<open>i+1 < end && format[i] == '.'\<close>): an argument index, then \<open>*\<close> or digits. A dot that ends
  the format is left to be read as the verb.\<close>

definition prec0 :: "string \<Rightarrow> bool \<Rightarrow> bool \<Rightarrow> string \<times> string \<times> bool \<times> bool" where
  "prec0 s afterIndex good =
     (if length s \<ge> 2 \<and> hd s = CHR ''.''
      then (case argNumber (tl s) (good \<and> \<not> afterIndex) of
              (s5, afterIndex5, good5) \<Rightarrow>
                if s5 \<noteq> [] \<and> hd s5 = CHR ''*''
                then (''%!(BADPREC)'', tl s5, False, good5)
                else ([], snd (parsenum 0 False s5), afterIndex5, good5))
      else ([], s, afterIndex, good))"

text \<open>The verb: what is written for it and the text that follows. At the end of the format
  there is no verb, and the loop stops.\<close>

definition verb0 :: "string \<Rightarrow> bool \<Rightarrow> string \<times> string" where
  "verb0 s good =
     (if s = [] then (''%!(NOVERB)'', [])
      else (case decode_verb s of
              (verb, n) \<Rightarrow>
                (if verb = ''%'' then ''%''
                 else if \<not> good then ''%!'' @ verb @ ''(BADINDEX)''
                 else ''%!'' @ verb @ ''(MISSING)'',
                 drop n s)))"

text \<open>One directive: the text after the percent sign is given; the result is what is
  written and the text that follows the directive.\<close>

definition directive0 :: "string \<Rightarrow> string \<times> string" where
  "directive0 s =
     (let s1 = dropWhile isFlag s;
          (s2, afterIndex2, good2) = argNumber s1 True;
          (outw, s3, afterIndex3, good3) = width0 s2 afterIndex2 good2;
          (outp, s6, afterIndex6, good6) = prec0 s3 afterIndex3 good3;
          (s7, afterIndex7, good7) =
             (if \<not> afterIndex6 then argNumber s6 good6 else (s6, afterIndex6, good6));
          (outv, rest) = verb0 s7 good7
      in (outw @ outp @ outv, rest))"

text \<open>The loop of \<open>doPrintf\<close>; the counter is the number of bytes still inside the last
  directive.\<close>

fun doPrintf0_loop :: "nat \<Rightarrow> string \<Rightarrow> string" where
  "doPrintf0_loop skip [] = []"
| "doPrintf0_loop skip (c # cs) =
     (if skip > 0 then doPrintf0_loop (skip - 1) cs
      else if c \<noteq> CHR ''%'' then c # doPrintf0_loop 0 cs
      else (case directive0 cs of
              (out, rest) \<Rightarrow> out @ doPrintf0_loop (length cs - length rest) cs))"

definition doPrintf0 :: "string \<Rightarrow> string" where
  "doPrintf0 format = doPrintf0_loop 0 format"

section \<open>Message composition (logger.go)\<close>

text \<open>
  \<open>func stringify(message []interface{}) string\<close>. The loop appends
  \<open>fmt.Fprintf(&b, "%v ", m)\<close> for every element that is not nil; the slice expression
  \<open>msg[:len(msg)-1]\<close> panics when \<open>msg\<close> is empty.
\<close>

fun stringify_loop :: "string \<Rightarrow> goval list \<Rightarrow> string" where
  "stringify_loop b [] = b"
| "stringify_loop b (m # ms) =
     stringify_loop (if m \<noteq> GNil then b @ fmt_v m @ '' '' else b) ms"

definition stringify :: "goval list \<Rightarrow> string result" where
  "stringify message =
     (let msg = stringify_loop [] message
      in if length msg = 0
         then Panics ''runtime error: slice bounds out of range [:-1]''
         else Ok (take (length msg - 1) msg))"

subsection \<open>Redaction\<close>

text \<open>\<open>func obscureParam(jsn string, param string) string\<close>. The patterns are compiled
  first: a name with an unclosed parenthesis panics there. \<open>Unmodelled\<close>: any other name
  that is not literal in the pattern language.\<close>

definition obscureParam :: "string \<Rightarrow> string \<Rightarrow> string result" where
  "obscureParam jsn param =
     (if regexp_literal param then
        (let bq = [CHR 0x5C, CHR 0x22];
             q = [CHR 0x22];
             jsn1 = replace_all (match_slash (bq @ param @ bq @ '':''))
                      (bq @ param @ bq @ '': '' @ bq @ mask @ bq) 0 jsn
         in Ok (replace_all (match_plain (q @ param @ q @ '':''))
                  (q @ param @ q @ '': '' @ q @ mask @ q) 0 jsn1))
      else if unclosed_paren param then Panics (mustCompile_panic (slash_pattern param))
      else Unmodelled)"

text \<open>\<open>func obscureSensitiveData(jsn string) string\<close>: the loop over \<open>sensitiveParams\<close>.\<close>

fun obscure_loop :: "string list \<Rightarrow> string \<Rightarrow> string result" where
  "obscure_loop [] jsn = Ok jsn"
| "obscure_loop (param # params) jsn =
     (case obscureParam jsn param of
        Ok jsn' \<Rightarrow> obscure_loop params jsn'
      | Panics p \<Rightarrow> Panics p
      | Unmodelled \<Rightarrow> Unmodelled)"

definition obscureSensitiveData :: "config \<Rightarrow> string \<Rightarrow> string result" where
  "obscureSensitiveData cfg jsn = obscure_loop (sensitiveParams cfg) jsn"

subsection \<open>Adapting one argument\<close>

text \<open>The message of a record has type \<open>interface{}\<close>: a Go string, the value that
  \<open>json.Unmarshal\<close> stored, or the caller's own value.\<close>

datatype message =
    MString string
  | MParsed json
  | MValue goval

text \<open>\<open>func strToObj(strMsg string) interface{}\<close>. The error that \<open>json.Unmarshal\<close>
  returns is dropped (\<open>_ = json.Unmarshal(byteMsg, &obj)\<close>).\<close>

definition strToObj :: "string \<Rightarrow> message result" where
  "strToObj strMsg =
     (if json_Valid strMsg then
        (case json_Unmarshal strMsg of
           Some (obj, err) \<Rightarrow> Ok (MParsed obj)
         | None \<Rightarrow> Unmodelled)
      else Ok (MString strMsg))"

text \<open>\<open>strToObj(obscureSensitiveData(strMsg))\<close>, as both branches of \<open>adaptMessage\<close> call it.\<close>

definition obscureToObj :: "config \<Rightarrow> string \<Rightarrow> message result" where
  "obscureToObj cfg strMsg =
     (case obscureSensitiveData cfg strMsg of
        Ok s \<Rightarrow> strToObj s
      | Panics p \<Rightarrow> Panics p
      | Unmodelled \<Rightarrow> Unmodelled)"

text \<open>\<open>func adaptMessage(message interface{}) interface{}\<close>. In the default branch the
  error of \<open>json.Marshal\<close> is dropped: the text is empty when marshalling fails.\<close>

definition adaptMessage :: "config \<Rightarrow> goval \<Rightarrow> message result" where
  "adaptMessage cfg message =
     (case message of
        GStr strMsg \<Rightarrow>
          if obscureSensitiveDataEnabled cfg \<and> length (sensitiveParams cfg) \<noteq> 0
          then obscureToObj cfg strMsg
          else strToObj strMsg
      | _ \<Rightarrow>
          if obscureSensitiveDataEnabled cfg \<and> length (sensitiveParams cfg) \<noteq> 0 then
            (case marshal_goval message of
               Enc jsn \<Rightarrow> obscureToObj cfg jsn
             | EncError \<Rightarrow> obscureToObj cfg []
             | EncUnmodelled \<Rightarrow> Unmodelled)
          else Ok (MValue message))"

text \<open>\<open>func composeMessage(message []interface{}) interface{}\<close>\<close>

definition composeMessage :: "config \<Rightarrow> goval list \<Rightarrow> message result" where
  "composeMessage cfg message =
     (case message of
        [] \<Rightarrow> Ok (MString [])
      | [m] \<Rightarrow> adaptMessage cfg m
      | m0 # rest \<Rightarrow>
          (case m0 of
             GStr msg0 \<Rightarrow>
               if CHR ''%'' \<in> set msg0 then
                 (case Sprintf msg0 rest of Some t \<Rightarrow> Ok (MString t) | None \<Rightarrow> Unmodelled)
               else (case stringify message of
                       Ok t \<Rightarrow> Ok (MString t) | Panics e \<Rightarrow> Panics e | Unmodelled \<Rightarrow> Unmodelled)
           | _ \<Rightarrow> (case stringify message of
                     Ok t \<Rightarrow> Ok (MString t) | Panics e \<Rightarrow> Panics e | Unmodelled \<Rightarrow> Unmodelled)))"

section \<open>The record and its rendering (logger.go)\<close>

text \<open>
  \<open>time.Now().String()\<close>: the layout \<open>2006-01-02 15:04:05.999999999 -0700 MST\<close> followed
  by the monotonic clock reading \<open>m=\<plusminus>value\<close>. The fraction of the second is written without
  trailing zeros and left out when it is zero.
\<close>

record gotime =
  date_time :: string
  nsec :: int
  zone :: string
  mono :: string

definition frac :: "int \<Rightarrow> string" where
  "frac n =
     (if n = 0 then []
      else CHR ''.'' # rev (dropWhile (\<lambda>c. c = CHR ''0'')
                            (rev (replicate (9 - length (nat_dec n)) CHR ''0'' @ nat_dec n))))"

definition time_String :: "gotime \<Rightarrow> string" where
  "time_String t = date_time t @ frac (nsec t) @ '' '' @ zone t @ '' m='' @ mono t"

text \<open>What a call reads from the runtime: the clock and, for \<open>traceCaller()\<close>, the file and
  function of the caller.\<close>

record env =
  now :: gotime
  caller :: "string \<times> string"

text \<open>
  Modelled from the spec: the struct type \<open>record\<close> and its JSON field names are declared in
  a file that is not at hand. The spec gives the envelope as
  \<open>{level: string, message: value, time: string, file: optional string, function: optional
  string}\<close> with required keys \<open>level\<close>, \<open>message\<close>, \<open>time\<close> and the keys \<open>file\<close>, \<open>function\<close>
  present iff caller tracing is enabled.
\<close>

record log_record =
  Level :: string
  Message :: message
  Time :: string
  File :: "string option"
  Function :: "string option"

fun marshal_message :: "message \<Rightarrow> enc" where
  "marshal_message (MString s) = enc_of (json_quote s)"
| "marshal_message (MParsed j) = enc_of (marshal_json j)"
| "marshal_message (MValue v) = marshal_goval v"

definition marshal_opt_field :: "string \<Rightarrow> string option \<Rightarrow> string option" where
  "marshal_opt_field name v =
     (case v of None \<Rightarrow> Some []
      | Some x \<Rightarrow> map_option (\<lambda>q. '',\"'' @ name @ ''\":'' @ q) (json_quote x))"

definition marshal_record :: "log_record \<Rightarrow> enc" where
  "marshal_record r =
     (case marshal_message (Message r) of
        EncUnmodelled \<Rightarrow> EncUnmodelled
      | EncError \<Rightarrow> EncError
      | Enc m \<Rightarrow>
          (case (json_quote (Level r), json_quote (Time r),
                 marshal_opt_field ''file'' (File r), marshal_opt_field ''function'' (Function r)) of
             (Some l, Some t, Some f, Some fx) \<Rightarrow>
               Enc (''{\"level\":'' @ l @ '',\"message\":'' @ m @ '',\"time\":'' @ t @ f @ fx @ ''}'')
           | _ \<Rightarrow> EncUnmodelled))"

text \<open>The first statements of \<open>composeLog\<close>: the record literal and the caller fields.\<close>

definition buildRecord :: "config \<Rightarrow> env \<Rightarrow> string \<Rightarrow> message \<Rightarrow> log_record" where
  "buildRecord cfg e level msg =
     (let logMsg = \<lparr> Level = level, Message = msg,
                     Time = takeWhile (\<lambda>c. c \<noteq> CHR ''m'') (time_String (now e)),
                     File = None, Function = None \<rparr>
      in if traceCallerEnabled cfg
         then logMsg\<lparr> File := Some (fst (caller e)), Function := Some (snd (caller e)) \<rparr>
         else logMsg)"

definition colorize :: "config \<Rightarrow> string \<Rightarrow> string \<Rightarrow> string" where
  "colorize cfg level logRecord =
     (if colorEnabled cfg then colorMap cfg level @ logRecord @ colorReset cfg else logRecord)"

text \<open>\<open>func composeLog(level string, message []interface{}) string\<close>. The error of
  \<open>json.Marshal\<close> is dropped, which leaves the empty text. The indented form
  (\<open>json.MarshalIndent\<close>) is outside the model.\<close>

definition composeLog :: "config \<Rightarrow> env \<Rightarrow> string \<Rightarrow> goval list \<Rightarrow> string result" where
  "composeLog cfg e level message =
     (case composeMessage cfg message of
        Panics p \<Rightarrow> Panics p
      | Unmodelled \<Rightarrow> Unmodelled
      | Ok msg \<Rightarrow>
          (let logMsg = buildRecord cfg e level msg
           in if JSONPrettyPrint cfg then Unmodelled
              else (case marshal_record logMsg of
                      Enc jsn \<Rightarrow> Ok (colorize cfg level jsn)
                    | EncError \<Rightarrow> Ok (colorize cfg level [])
                    | EncUnmodelled \<Rightarrow> Unmodelled)))"

section \<open>Level dispatch (logger.go)\<close>

text \<open>The sink \<open>logWriter\<close> is the list of the byte strings written to it, one per call of
  \<open>fmt.Fprintf\<close>.\<close>

type_synonym sink = "string list"

text \<open>\<open>func printLog(label string, message []interface{})\<close>\<close>

definition printLog :: "config \<Rightarrow> env \<Rightarrow> sink \<Rightarrow> string \<Rightarrow> goval list \<Rightarrow> sink result" where
  "printLog cfg e w label message =
     (if logLevels label \<ge> logLevel cfg then
        (case composeLog cfg e label message of
           Ok logRecord \<Rightarrow> Ok (w @ [doPrintf0 logRecord])
         | Panics p \<Rightarrow> Panics p
         | Unmodelled \<Rightarrow> Unmodelled)
      else Ok w)"

text \<open>What a leveled entry point does to its caller: it returns, panics with a payload, or
  ends the process with a status; each with the sink as it is then.\<close>

datatype outcome =
    Returned sink
  | Panicked string sink
  | Exited int sink
  | NotModelled

definition run :: "sink \<Rightarrow> sink result \<Rightarrow> outcome" where
  "run w r = (case r of Ok w' \<Rightarrow> Returned w' | Panics p \<Rightarrow> Panicked p w | Unmodelled \<Rightarrow> NotModelled)"

definition Trace :: "config \<Rightarrow> env \<Rightarrow> sink \<Rightarrow> goval list \<Rightarrow> outcome" where
  "Trace cfg e w message = run w (printLog cfg e w traceLabel message)"

definition Debug :: "config \<Rightarrow> env \<Rightarrow> sink \<Rightarrow> goval list \<Rightarrow> outcome" where
  "Debug cfg e w message = run w (printLog cfg e w debugLabel message)"

definition Info :: "config \<Rightarrow> env \<Rightarrow> sink \<Rightarrow> goval list \<Rightarrow> outcome" where
  "Info cfg e w message = run w (printLog cfg e w infoLabel message)"

definition Warn :: "config \<Rightarrow> env \<Rightarrow> sink \<Rightarrow> goval list \<Rightarrow> outcome" where
  "Warn cfg e w message = run w (printLog cfg e w warnLabel message)"

definition Error :: "config \<Rightarrow> env \<Rightarrow> sink \<Rightarrow> goval list \<Rightarrow> outcome" where
  "Error cfg e w message = run w (printLog cfg e w errorLabel message)"

text \<open>\<open>func Panic(message ...interface{})\<close>: \<open>panic(composeLog(panicLabel, message))\<close>\<close>

definition Panic :: "config \<Rightarrow> env \<Rightarrow> sink \<Rightarrow> goval list \<Rightarrow> outcome" where
  "Panic cfg e w message =
     (case composeLog cfg e panicLabel message of
        Ok logRecord \<Rightarrow> Panicked logRecord w
      | Panics p \<Rightarrow> Panicked p w
      | Unmodelled \<Rightarrow> NotModelled)"

text \<open>\<open>func Fatal(message ...interface{})\<close>: \<open>printLog\<close>, then \<open>os.Exit(1)\<close>\<close>

definition Fatal :: "config \<Rightarrow> env \<Rightarrow> sink \<Rightarrow> goval list \<Rightarrow> outcome" where
  "Fatal cfg e w message =
     (case printLog cfg e w fatalLabel message of
        Ok w' \<Rightarrow> Exited 1 w'
      | Panics p \<Rightarrow> Panicked p w
      | Unmodelled \<Rightarrow> NotModelled)"

section \<open>Example inputs\<close>

text \<open>A clock reading, a runtime environment and a configuration with redaction of the
  field \<open>password\<close>, used to run the pipeline on concrete calls.\<close>

definition example_time :: gotime where
  "example_time = \<lparr> date_time = ''2021-03-01 12:00:00'', nsec = 123456789,
     zone = ''+0100 CET'', mono = ''+0.000012345'' \<rparr>"

definition example_env :: env where
  "example_env = \<lparr> now = example_time, caller = (''main.go'', ''main.main'') \<rparr>"

definition redacting_config :: config where
  "redacting_config =
     initial_config\<lparr> obscureSensitiveDataEnabled := True, sensitiveParams := [''password''] \<rparr>"

section \<open>Flat objects with string fields\<close>

text \<open>
  The payloads for which redaction is stated below: the text of a JSON object whose fields
  all hold strings, written \<open>"key":"value"\<close> with optional spaces before the key and between
  the colon and the value, keys and values of printable ASCII without quote and backslash.
\<close>

datatype field = Field (pad: string) (key: string) (gap: string) (val: string)

definition name_char :: "char \<Rightarrow> bool" where
  "name_char c =
     (c \<in> set ''abcdefghijklmnopqrstuvwxyzABCDEFGHIJKLMNOPQRSTUVWXYZ0123456789_'')"

definition text_char :: "char \<Rightarrow> bool" where
  "text_char c = (CHR 0x20 \<le> c \<and> c < CHR 0x80 \<and> c \<noteq> CHR 0x22 \<and> c \<noteq> CHR 0x5C)"

definition spaces :: "string \<Rightarrow> bool" where
  "spaces s = list_all (\<lambda>c. c = CHR '' '') s"

definition field_ok :: "field \<Rightarrow> bool" where
  "field_ok f =
     (spaces (pad f) \<and> spaces (gap f) \<and> list_all text_char (key f) \<and> list_all text_char (val f))"

definition field_text :: "field \<Rightarrow> string" where
  "field_text f =
     pad f @ CHR 0x22 # key f @ CHR 0x22 # CHR '':'' # gap f @ CHR 0x22 # val f @ [CHR 0x22]"

fun fields_text :: "field list \<Rightarrow> string" where
  "fields_text [] = ''}''"
| "fields_text [f] = field_text f @ ''}''"
| "fields_text (f # g # r) = field_text f @ '','' @ fields_text (g # r)"

definition object_text :: "field list \<Rightarrow> string" where
  "object_text fs = CHR ''{'' # fields_text fs"

text \<open>The field after redaction with the names \<open>ps\<close>, and the member it denotes.\<close>

definition mask_field :: "string list \<Rightarrow> field \<Rightarrow> field" where
  "mask_field ps f = (if key f \<in> set ps then Field (pad f) (key f) '' '' mask else f)"

definition member :: "field \<Rightarrow> string \<times> json" where
  "member f = (key f, JStr (val f))"

section \<open>Properties\<close>

subsection \<open>Helper lemmas\<close>

text \<open>The limit of \<open>float64\<close> written out, for evaluation.\<close>

lemma float64_limit_numeral [code]:
  "float64_limit =
     179769313486231580793728971405303415079934132710037826936173778980444968292764750946649017977587207096330286416692887910946555547851940402630657488671505820681908902000708383676273854845817711531764475730270069855571366959622842914819860834936475292719074168444365510704342711559699508093042880177904174497792"
  by (simp add: float64_limit_def)

lemmas level_defs = traceLevel_def debugLevel_def infoLevel_def warnLevel_def
  errorLevel_def panicLevel_def fatalLevel_def

lemmas label_defs = traceLabel_def debugLabel_def infoLabel_def warnLabel_def
  errorLabel_def panicLabel_def fatalLabel_def

lemma logLevels_known:
  "logLevels ''trace'' = 1" "logLevels ''debug'' = 2" "logLevels ''info'' = 3"
  "logLevels ''warn'' = 4" "logLevels ''error'' = 5" "logLevels ''panic'' = 6"
  "logLevels ''fatal'' = 7"
  by (simp_all add: logLevels_def logLevels_tab_def level_defs label_defs)

lemma logLevels_unknown:
  "level \<notin> {''trace'', ''debug'', ''info'', ''warn'', ''error'', ''panic'', ''fatal''}
   \<Longrightarrow> logLevels level = 0"
  by (simp add: logLevels_def logLevels_tab_def level_defs label_defs)

text \<open>The loop of \<open>stringify\<close> builds the texts of the elements that are not nil, each
  followed by a space.\<close>

lemma stringify_loop_acc: "stringify_loop b ms = b @ stringify_loop [] ms"
proof (induction ms arbitrary: b)
  case Nil
  then show ?case by simp
next
  case (Cons m ms)
  have "stringify_loop (b @ fmt_v m @ '' '') ms = b @ fmt_v m @ '' '' @ stringify_loop [] ms"
    using Cons.IH [of "b @ fmt_v m @ '' ''"] by simp
  moreover have "stringify_loop (fmt_v m @ '' '') ms = fmt_v m @ '' '' @ stringify_loop [] ms"
    using Cons.IH [of "fmt_v m @ '' ''"] by simp
  ultimately show ?case using Cons.IH [of b] by simp
qed

lemma stringify_loop_concat:
  "stringify_loop [] ms = concat (map (\<lambda>m. fmt_v m @ '' '') (filter (\<lambda>m. m \<noteq> GNil) ms))"
proof (induction ms)
  case Nil
  then show ?case by simp
next
  case (Cons m ms)
  then show ?case using stringify_loop_acc [of "fmt_v m @ '' ''" ms] by simp
qed

lemma join_space_concat:
  "xs \<noteq> [] \<Longrightarrow> concat (map (\<lambda>x. x @ '' '') xs) = join '' '' xs @ '' ''"
  by (induction xs rule: join.induct[where ?a0.0 = "'' ''"]) auto

text \<open>With an element that is not nil, \<open>stringify\<close> returns the texts joined by one space.\<close>

lemma stringify_some_nonnil:
  assumes "\<exists>m \<in> set ms. m \<noteq> GNil"
  shows "stringify ms = Ok (join '' '' (map fmt_v (filter (\<lambda>m. m \<noteq> GNil) ms)))"
proof -
  let ?xs = "map fmt_v (filter (\<lambda>m. m \<noteq> GNil) ms)"
  have ne: "?xs \<noteq> []" using assms by (auto simp: filter_empty_conv)
  have "stringify_loop [] ms = concat (map (\<lambda>x. x @ '' '') ?xs)"
    by (simp add: stringify_loop_concat map_map comp_def)
  then have eq: "stringify_loop [] ms = join '' '' ?xs @ '' ''"
    using join_space_concat [OF ne] by simp
  show ?thesis unfolding stringify_def Let_def eq by simp
qed

text \<open>With nil elements only, the slice expression of \<open>stringify\<close> panics.\<close>

lemma stringify_all_nil:
  assumes "\<forall>m \<in> set ms. m = GNil"
  shows "stringify ms = Panics ''runtime error: slice bounds out of range [:-1]''"
proof -
  have "filter (\<lambda>m. m \<noteq> GNil) ms = []" using assms by (auto simp: filter_empty_conv)
  then have "stringify_loop [] ms = []" by (simp add: stringify_loop_concat)
  then show ?thesis by (simp add: stringify_def)
qed

lemma composeMessage_chain:
  assumes "\<forall>f. m0 = GStr f \<longrightarrow> CHR ''%'' \<notin> set f"
  shows "composeMessage cfg (m0 # m1 # ms) =
     (case stringify (m0 # m1 # ms) of
        Ok t \<Rightarrow> Ok (MString t) | Panics p \<Rightarrow> Panics p | Unmodelled \<Rightarrow> Unmodelled)"
  using assms by (cases m0) (simp_all add: composeMessage_def)

text \<open>Chaining, for a call with an element that is not nil.\<close>

lemma composeMessage_chain_joined:
  assumes "\<forall>f. m0 = GStr f \<longrightarrow> CHR ''%'' \<notin> set f"
      and "\<exists>m \<in> set (m0 # m1 # ms). m \<noteq> GNil"
  shows "composeMessage cfg (m0 # m1 # ms) =
           Ok (MString (join '' '' (map fmt_v (filter (\<lambda>m. m \<noteq> GNil) (m0 # m1 # ms)))))"
  using composeMessage_chain [OF assms(1)] stringify_some_nonnil [OF assms(2)] by simp

text \<open>The threshold is read by \<open>printLog\<close> only.\<close>

lemma obscureSensitiveData_logLevel [simp]:
  "obscureSensitiveData (cfg\<lparr>logLevel := t\<rparr>) = obscureSensitiveData cfg"
  by (rule ext) (simp add: obscureSensitiveData_def)

lemma obscureToObj_logLevel [simp]:
  "obscureToObj (cfg\<lparr>logLevel := t\<rparr>) = obscureToObj cfg"
  by (rule ext) (simp add: obscureToObj_def)

lemma adaptMessage_logLevel [simp]:
  "adaptMessage (cfg\<lparr>logLevel := t\<rparr>) m = adaptMessage cfg m"
  by (cases m) (simp_all add: adaptMessage_def split: option.split)

lemma composeMessage_logLevel [simp]:
  "composeMessage (cfg\<lparr>logLevel := t\<rparr>) ms = composeMessage cfg ms"
  by (cases ms) (simp_all add: composeMessage_def split: list.split)

lemma buildRecord_logLevel [simp]:
  "buildRecord (cfg\<lparr>logLevel := t\<rparr>) = buildRecord cfg"
  by (rule ext)+ (simp add: buildRecord_def)

lemma colorize_logLevel [simp]:
  "colorize (cfg\<lparr>logLevel := t\<rparr>) = colorize cfg"
  by (rule ext)+ (simp add: colorize_def)

lemma composeLog_logLevel [simp]:
  "composeLog (cfg\<lparr>logLevel := t\<rparr>) e l m = composeLog cfg e l m"
  by (simp add: composeLog_def Let_def split: result.split enc.split)

text \<open>The six entry points that are not \<open>Panic\<close> are \<open>printLog\<close> at their label.\<close>

lemma entry_points_printLog:
  "Trace cfg e w ms = run w (printLog cfg e w ''trace'' ms)"
  "Debug cfg e w ms = run w (printLog cfg e w ''debug'' ms)"
  "Info cfg e w ms = run w (printLog cfg e w ''info'' ms)"
  "Warn cfg e w ms = run w (printLog cfg e w ''warn'' ms)"
  "Error cfg e w ms = run w (printLog cfg e w ''error'' ms)"
  "Fatal cfg e w ms =
     (case printLog cfg e w ''fatal'' ms of
        Ok w' \<Rightarrow> Exited 1 w' | Panics p \<Rightarrow> Panicked p w | Unmodelled \<Rightarrow> NotModelled)"
  by (simp_all add: Trace_def Debug_def Info_def Warn_def Error_def Fatal_def label_defs)

text \<open>The encoding of a decoded value that is not a string does not start with a quote.\<close>

lemma marshal_json_native:
  assumes "marshal_json v = Some t" and "\<forall>x. v \<noteq> JStr x"
  shows "t \<noteq> [] \<and> hd t \<noteq> CHR 0x22"
proof (cases v)
  case JNull
  then show ?thesis using assms by auto
next
  case (JBool b)
  then show ?thesis using assms by (cases b) auto
next
  case (JNum n)
  then have lit: "int_literal n" and tn: "t = n" using assms by (auto split: if_splits)
  show ?thesis
  proof (cases "n \<noteq> [] \<and> hd n = CHR ''-''")
    case True
    then show ?thesis using tn by simp
  next
    case False
    then have "n \<noteq> [] \<and> list_all isDigit n" using lit by (auto simp: int_literal_def Let_def)
    then have "n \<noteq> [] \<and> isDigit (hd n)" by (cases n) auto
    then show ?thesis using tn by (auto simp: isDigit_def)
  qed
next
  case (JStr s)
  then show ?thesis using assms by simp
next
  case (JArr vs)
  then show ?thesis using assms by auto
next
  case (JObj kvs)
  then show ?thesis using assms by (auto split: option.splits)
qed

text \<open>The digits of a number and the fraction of a second have no letter \<open>m\<close>.\<close>

lemma digit_char_not_m:
  assumes "d < 10"
  shows "digit_char d \<noteq> CHR ''m''"
proof
  assume "digit_char d = CHR ''m''"
  then have "(of_char (digit_char d) :: nat) = of_char (CHR ''m'')" by simp
  then have "48 + d = (109 :: nat)" using assms by (simp add: digit_char_def)
  with assms show False by simp
qed

lemma nat_dec_not_m: "CHR ''m'' \<notin> set (nat_dec n)"
proof (induction n rule: nat_dec.induct)
  case (1 n)
  show ?case
  proof (cases "n < 10")
    case True
    then have "nat n < 10" by simp
    then show ?thesis using True digit_char_not_m [of "nat n"] by (subst nat_dec.simps) auto
  next
    case False
    have "nat (n mod 10) < 10" by simp
    then have "digit_char (nat (n mod 10)) \<noteq> CHR ''m''" by (rule digit_char_not_m)
    then show ?thesis using False "1.IH" by (subst nat_dec.simps) auto
  qed
qed

lemma frac_not_m: "CHR ''m'' \<notin> set (frac n)"
proof -
  have "set (dropWhile (\<lambda>c. c = CHR ''0'') (rev (replicate (9 - length (nat_dec n)) CHR ''0'' @ nat_dec n)))
        \<subseteq> set (replicate (9 - length (nat_dec n)) CHR ''0'' @ nat_dec n)"
    using set_dropWhileD by fastforce
  then show ?thesis using nat_dec_not_m [of n] by (auto simp: frac_def)
qed


subsection \<open>A format with no operands\<close>

text \<open>Each stage of a directive leaves a suffix of its input; a written \<open>%!(BADWIDTH)\<close> or
  \<open>%!(BADPREC)\<close> goes with a star that was read.\<close>

lemma parsenum_suffix: "parsenum n b s = (isnum, r) \<Longrightarrow> \<exists>c. s = c @ r"
proof (induction s arbitrary: n b)
  case Nil
  then show ?case by simp
next
  case (Cons a s)
  show ?case
  proof (cases "isDigit a")
    case True
    show ?thesis
    proof (cases "n > 1000000")
      case True
      with \<open>isDigit a\<close> Cons.prems show ?thesis by simp
    next
      case False
      with \<open>isDigit a\<close> Cons.prems
      have "parsenum (n * 10 + (of_char a - 48)) True s = (isnum, r)" by simp
      from Cons.IH [OF this] obtain c where "s = c @ r" by blast
      then have "a # s = (a # c) @ r" by simp
      then show ?thesis by blast
    qed
  next
    case False
    with Cons.prems show ?thesis by auto
  qed
qed

lemma argNumber_suffix: "argNumber s g = (s', ai, g') \<Longrightarrow> \<exists>c. s = c @ s'"
proof (cases s)
  case Nil
  assume "argNumber s g = (s', ai, g')"
  with Nil show ?thesis by (simp add: argNumber_def)
next
  case (Cons a as)
  assume h: "argNumber s g = (s', ai, g')"
  show ?thesis
  proof (cases "a = CHR ''[''")
    case False
    with h Cons show ?thesis by (simp add: argNumber_def)
  next
    case True
    with h Cons have "s' = drop (fst (parseArgNumber s)) s"
      by (auto simp add: argNumber_def split: prod.splits)
    then have "s = take (fst (parseArgNumber s)) s @ s'" by simp
    then show ?thesis by blast
  qed
qed

lemma width0_spec:
  assumes "width0 s ai g = (out, r, ai', g')"
  shows "\<exists>c. s = c @ r \<and> count_list out CHR ''%'' \<le> count_list c CHR ''*''
           \<and> count_list out CHR ''*'' = 0
           \<and> (out = [] \<or> (\<exists>x. out = CHR ''%'' # CHR ''!'' # x))"
proof (cases "s \<noteq> [] \<and> hd s = CHR ''*''")
  case True
  then have "s = ''*'' @ tl s" by (cases s) auto
  moreover have "out = ''%!(BADWIDTH)''" "r = tl s" using assms True by (auto simp: width0_def)
  ultimately show ?thesis by (intro exI [of _ "''*''"]) simp
next
  case False
  then obtain wp where "parsenum 0 False s = (wp, r)" and "out = []"
    using assms by (auto simp: width0_def split: prod.splits)
  then show ?thesis using parsenum_suffix by fastforce
qed

lemma prec0_spec:
  assumes "prec0 s ai g = (out, r, ai', g')"
  shows "\<exists>c. s = c @ r \<and> count_list out CHR ''%'' \<le> count_list c CHR ''*''
           \<and> count_list out CHR ''*'' = 0
           \<and> (out = [] \<or> (\<exists>x. out = CHR ''%'' # CHR ''!'' # x))"
proof (cases "length s \<ge> 2 \<and> hd s = CHR ''.''")
  case False
  then have "out = []" "r = s" using assms by (auto simp: prec0_def)
  then show ?thesis by simp
next
  case True
  then have s: "s = ''.'' @ tl s" by (cases s) auto
  obtain s5 ai5 g5 where a: "argNumber (tl s) (g \<and> \<not> ai) = (s5, ai5, g5)"
    by (metis prod_cases3)
  then obtain c4 where c4: "tl s = c4 @ s5" using argNumber_suffix by blast
  show ?thesis
  proof (cases "s5 \<noteq> [] \<and> hd s5 = CHR ''*''")
    case star: True
    then have s5: "s5 = ''*'' @ tl s5" by (cases s5) auto
    have o: "out = ''%!(BADPREC)''" "r = tl s5"
      using assms True a star by (auto simp: prec0_def)
    have "s = (''.'' @ c4 @ ''*'') @ r" using s c4 s5 o by (metis append.assoc)
    then show ?thesis using o by (intro exI [of _ "''.'' @ c4 @ ''*''"]) simp
  next
    case nostar: False
    have o: "out = []" "r = snd (parsenum 0 False s5)"
      using assms True a nostar by (auto simp: prec0_def)
    obtain c5 where "s5 = c5 @ r" using parsenum_suffix [of 0 False s5] o by (metis prod.collapse)
    then have "s = (''.'' @ c4 @ c5) @ r" using s c4 by (metis append.assoc)
    then show ?thesis using o by (intro exI [of _ "''.'' @ c4 @ c5"]) simp
  qed
qed


lemma lead_ranges: "lead b0 = Some rs \<Longrightarrow> \<forall>(lo, hi) \<in> set rs. CHR 0x80 \<le> lo"
  by (auto simp: lead_def split: if_splits)

lemma conts_hi:
  "conts rs r \<Longrightarrow> \<forall>(lo, hi) \<in> set rs. CHR 0x80 \<le> lo \<Longrightarrow>
   \<forall>c \<in> set (take (length rs) r). CHR 0x80 \<le> c"
proof (induction rs r rule: conts.induct)
  case (1 r)
  then show ?case by simp
next
  case (2 lo hi rs)
  then show ?case by simp
next
  case (3 lo hi rs c cs)
  then show ?case by (auto intro: order_trans)
qed

lemma rune_size_hi:
  assumes "rune_size s \<ge> 2"
  shows "\<forall>c \<in> set (take (rune_size s) s). c \<ge> CHR 0x80"
proof (cases s)
  case Nil
  then show ?thesis by simp
next
  case (Cons b0 r)
  have hi: "\<not> b0 < CHR 0x80" using assms Cons by (auto simp: rune_size_def)
  then obtain rs where l: "lead b0 = Some rs" and c: "conts rs r"
    and n: "rune_size s = 1 + length rs"
    using assms Cons by (auto simp: rune_size_def split: option.splits if_splits)
  have "\<forall>c \<in> set (take (length rs) r). CHR 0x80 \<le> c"
    using conts_hi [OF c lead_ranges [OF l]] .
  then show ?thesis using n Cons hi by auto
qed

lemma decode_verb_spec:
  assumes "s \<noteq> []" and "decode_verb s = (verb, n)"
  shows "n \<ge> 1 \<and> (\<forall>c \<in> set verb. c = CHR ''%'' \<or> c = CHR ''*'' \<longrightarrow> verb = [c] \<and> n = 1 \<and> hd s = c)"
proof (cases "rune_size s = 0")
  case True
  then have "verb = [CHR 0xEF, CHR 0xBF, CHR 0xBD]" "n = 1"
    using assms by (auto simp: decode_verb_def Let_def)
  then show ?thesis by auto
next
  case False
  then have v: "verb = take n s" "n = rune_size s"
    using assms by (auto simp: decode_verb_def Let_def)
  show ?thesis
  proof (cases "n \<ge> 2")
    case True
    then have "\<forall>c \<in> set verb. c \<ge> CHR 0x80" using rune_size_hi [of s] v by simp
    then have "\<forall>c \<in> set verb. c \<noteq> CHR ''%'' \<and> c \<noteq> CHR ''*''" by auto
    then show ?thesis using True by auto
  next
    case False
    then have "n = 1" using v \<open>rune_size s \<noteq> 0\<close> by simp
    then have "verb = [hd s]" using v assms(1) by (cases s) auto
    then show ?thesis using \<open>n = 1\<close> by auto
  qed
qed

lemma verb0_spec:
  assumes "verb0 s g = (out, r)"
  shows "\<exists>c. s = c @ r \<and> count_list out CHR ''%'' = 1
           \<and> count_list out CHR ''*'' \<le> count_list c CHR ''*''
           \<and> (out = ''%'' \<or> (\<exists>x. out = CHR ''%'' # CHR ''!'' # x))
           \<and> (s \<noteq> [] \<longrightarrow> c \<noteq> []) \<and> (out = ''%'' \<longrightarrow> c \<noteq> [])"
proof (cases "s = []")
  case True
  then have "out = ''%!(NOVERB)''" "r = []" using assms by (auto simp: verb0_def)
  then show ?thesis using True by simp
next
  case False
  obtain verb n where d: "decode_verb s = (verb, n)" by (metis prod.collapse)
  from decode_verb_spec [OF False d]
  have n1: "n \<ge> 1"
    and sp: "\<forall>c \<in> set verb. c = CHR ''%'' \<or> c = CHR ''*'' \<longrightarrow> verb = [c] \<and> n = 1 \<and> hd s = c"
    by blast+
  have r: "r = drop n s" using assms False d by (auto simp: verb0_def)
  have sc: "s = take n s @ r" using r by simp
  have ne: "take n s \<noteq> []" using False n1 by (cases s) auto
  show ?thesis
  proof (cases "verb = ''%''")
    case True
    then have "out = ''%''" using assms False d by (auto simp: verb0_def)
    then show ?thesis using sc ne by (intro exI [of _ "take n s"]) simp
  next
    case nv: False
    then have "out = (if \<not> g then ''%!'' @ verb @ ''(BADINDEX)'' else ''%!'' @ verb @ ''(MISSING)'')"
      using assms False d by (auto simp: verb0_def)
    then obtain suf where o: "out = ''%!'' @ verb @ suf"
      and suf: "suf = ''(BADINDEX)'' \<or> suf = ''(MISSING)''"
      by (cases g) auto
    have np: "CHR ''%'' \<notin> set verb" using sp nv by auto
    have cp: "count_list out CHR ''%'' = 1" using o suf np by auto
    have cs: "count_list out CHR ''*'' \<le> count_list (take n s) CHR ''*''"
    proof (cases "CHR ''*'' \<in> set verb")
      case True
      then have "verb = ''*''" "n = 1" "hd s = CHR ''*''" using sp by auto
      then have "take n s = ''*''" using False by (cases s) auto
      then show ?thesis using o suf \<open>verb = ''*''\<close> by auto
    next
      case False
      then have "count_list verb CHR ''*'' = 0" by simp
      then show ?thesis using o suf by auto
    qed
    show ?thesis using sc ne cp cs o by (intro exI [of _ "take n s"]) auto
  qed
qed

lemma directive0_bang: "directive0 (CHR ''!'' # t) = (''%!!(MISSING)'', t)"
  by (simp add: directive0_def isFlag_def argNumber_def width0_def prec0_def verb0_def
      decode_verb_def rune_size_def isDigit_def Let_def)

lemma directive0_spec:
  assumes "directive0 t = (D, rest)"
  shows "\<exists>cons. t = cons @ rest
           \<and> (D = ''%'' \<or> (\<exists>x. D = CHR ''%'' # CHR ''!'' # x))
           \<and> (t \<noteq> [] \<longrightarrow> cons \<noteq> []) \<and> (D = ''%'' \<longrightarrow> cons \<noteq> [])
           \<and> (count_list D CHR ''%'' \<ge> 2 \<longrightarrow> count_list cons CHR ''*'' > count_list D CHR ''*'')"
proof -
  obtain c1 where c1: "t = c1 @ dropWhile isFlag t"
    by (metis takeWhile_dropWhile_id)
  obtain s2 ai2 g2 where a2: "argNumber (dropWhile isFlag t) True = (s2, ai2, g2)"
    by (metis prod_cases3)
  obtain ow s3 ai3 g3 where w: "width0 s2 ai2 g2 = (ow, s3, ai3, g3)"
    by (metis prod_cases4)
  obtain op s6 ai6 g6 where p: "prec0 s3 ai3 g3 = (op, s6, ai6, g6)"
    by (metis prod_cases4)
  obtain s7 ai7 g7 where a7:
    "(if \<not> ai6 then argNumber s6 g6 else (s6, ai6, g6)) = (s7, ai7, g7)"
    by (metis prod_cases3)
  obtain ov r where v: "verb0 s7 g7 = (ov, r)" by (metis prod.collapse)
  have D: "D = ow @ op @ ov" and rest: "rest = r"
    using assms by (simp_all add: directive0_def Let_def a2 w p a7 v)
  obtain c2 where c2: "dropWhile isFlag t = c2 @ s2" using argNumber_suffix [OF a2] by blast
  from width0_spec [OF w] obtain c3 where c3: "s2 = c3 @ s3"
    and w1: "count_list ow CHR ''%'' \<le> count_list c3 CHR ''*''"
    and w2: "count_list ow CHR ''*'' = 0"
    and w3: "ow = [] \<or> (\<exists>x. ow = CHR ''%'' # CHR ''!'' # x)" by blast
  from prec0_spec [OF p] obtain c4 where c4: "s3 = c4 @ s6"
    and p1: "count_list op CHR ''%'' \<le> count_list c4 CHR ''*''"
    and p2: "count_list op CHR ''*'' = 0"
    and p3: "op = [] \<or> (\<exists>x. op = CHR ''%'' # CHR ''!'' # x)" by blast
  obtain c6 where c6: "s6 = c6 @ s7"
    using a7 argNumber_suffix [of s6 g6 s7 ai7 g7] by (cases "ai6") auto
  from verb0_spec [OF v] obtain c7 where c7: "s7 = c7 @ r"
    and v1: "count_list ov CHR ''%'' = 1"
    and v2: "count_list ov CHR ''*'' \<le> count_list c7 CHR ''*''"
    and v3: "ov = ''%'' \<or> (\<exists>x. ov = CHR ''%'' # CHR ''!'' # x)"
    and v4: "s7 \<noteq> [] \<longrightarrow> c7 \<noteq> []" and v5: "ov = ''%'' \<longrightarrow> c7 \<noteq> []" by blast
  let ?cons = "c1 @ c2 @ c3 @ c4 @ c6 @ c7"
  have t: "t = ?cons @ rest" using c1 c2 c3 c4 c6 c7 rest by (metis append.assoc)
  have shape: "D = ''%'' \<or> (\<exists>x. D = CHR ''%'' # CHR ''!'' # x)"
    using D w3 p3 v3 by auto
  have ne: "t \<noteq> [] \<longrightarrow> ?cons \<noteq> []"
  proof
    assume "t \<noteq> []"
    show "?cons \<noteq> []"
    proof (cases "s7 = []")
      case True
      then have "r = []" using c7 by simp
      then show ?thesis using t rest \<open>t \<noteq> []\<close> by auto
    next
      case False
      then show ?thesis using v4 by simp
    qed
  qed
  have pc: "D = ''%'' \<longrightarrow> ?cons \<noteq> []"
  proof
    assume "D = ''%''"
    then have "ov = ''%''" using D w3 p3 v3 v1
      by (cases ow; cases op) auto
    then show "?cons \<noteq> []" using v5 by simp
  qed
  have cnt: "count_list D CHR ''%'' \<ge> 2 \<longrightarrow> count_list ?cons CHR ''*'' > count_list D CHR ''*''"
  proof
    assume "count_list D CHR ''%'' \<ge> 2"
    then have "count_list ow CHR ''%'' + count_list op CHR ''%'' \<ge> 1"
      using D v1 by simp
    moreover have "count_list D CHR ''*'' = count_list ov CHR ''*''" using D w2 p2 by simp
    ultimately show "count_list ?cons CHR ''*'' > count_list D CHR ''*''"
      using w1 p1 v2 by simp
  qed
  show ?thesis using t shape ne pc cnt by blast
qed

text \<open>The loop, one directive at a time.\<close>

lemma doPrintf0_loop_skip: "doPrintf0_loop n s = doPrintf0_loop 0 (drop n s)"
proof (induction s arbitrary: n)
  case Nil
  then show ?case by simp
next
  case (Cons c cs)
  show ?case
  proof (cases n)
    case 0
    then show ?thesis by simp
  next
    case (Suc k)
    then show ?thesis using Cons.IH [of k] by simp
  qed
qed

lemma doPrintf0_literal: "CHR ''%'' \<notin> set p \<Longrightarrow> doPrintf0 (p @ t) = p @ doPrintf0 t"
  by (induction p) (auto simp: doPrintf0_def)

lemma doPrintf0_directive:
  assumes "directive0 t = (D, rest)"
  shows "doPrintf0 (CHR ''%'' # t) = D @ doPrintf0 rest"
proof -
  obtain cons where "t = cons @ rest" using directive0_spec [OF assms] by blast
  then have "drop (length t - length rest) t = rest" by simp
  then show ?thesis
    using assms doPrintf0_loop_skip [of "length t - length rest" t]
    by (simp add: doPrintf0_def)
qed

lemma doPrintf0_no_percent: "CHR ''%'' \<notin> set s \<Longrightarrow> doPrintf0 s = s"
  using doPrintf0_literal [of s "[]"] by (simp add: doPrintf0_def)

lemma missing_tail_no_fixpoint: "u \<noteq> ''!(MISSING)'' @ doPrintf0 u"
proof (induction "length u" arbitrary: u rule: less_induct)
  case less
  show ?case
  proof
    assume eq: "u = ''!(MISSING)'' @ doPrintf0 u"
    have "doPrintf0 (''!(MISSING)'' @ doPrintf0 u) = ''!(MISSING)'' @ doPrintf0 (doPrintf0 u)"
      by (rule doPrintf0_literal) simp
    then have "doPrintf0 u = ''!(MISSING)'' @ doPrintf0 (doPrintf0 u)" using eq by simp
    moreover have "length (doPrintf0 u) < length u"
    proof -
      have "length u = length (''!(MISSING)'' @ doPrintf0 u)" using eq by simp
      then show ?thesis by simp
    qed
    ultimately show False using less [of "doPrintf0 u"] by blast
  qed
qed

lemma first_percent_split:
  assumes "w @ p @ CHR ''%'' # x = p @ CHR ''%'' # y" and "CHR ''%'' \<notin> set p" and "w \<noteq> []"
  shows "\<exists>w1. w = p @ CHR ''%'' # w1"
proof (cases "CHR ''%'' \<in> set w")
  case False
  have "takeWhile (\<lambda>c. c \<noteq> CHR ''%'') ((w @ p) @ CHR ''%'' # x) = w @ p"
    using False assms(2) by (intro takeWhile_append2 [THEN trans]) auto
  moreover have "takeWhile (\<lambda>c. c \<noteq> CHR ''%'') (p @ CHR ''%'' # y) = p"
    using assms(2) by (intro takeWhile_append2 [THEN trans]) auto
  ultimately have "w @ p = p" using assms(1) by simp
  then show ?thesis using assms(3) by simp
next
  case True
  then obtain a w1 where w: "w = a @ CHR ''%'' # w1" and a: "CHR ''%'' \<notin> set a"
    by (meson split_list_first)
  have "takeWhile (\<lambda>c. c \<noteq> CHR ''%'') (a @ CHR ''%'' # (w1 @ p @ CHR ''%'' # x)) = a"
    using a by (intro takeWhile_append2 [THEN trans]) auto
  moreover have "takeWhile (\<lambda>c. c \<noteq> CHR ''%'') (p @ CHR ''%'' # y) = p"
    using assms(2) by (intro takeWhile_append2 [THEN trans]) auto
  ultimately have "a = p" using assms(1) w by simp
  then show ?thesis using w by blast
qed

lemma count_list_infix: "count_list (a @ b @ c) x \<ge> count_list b x"
  by simp

lemma doPrintf0_no_growth_in_front:
  "doPrintf0 u = w @ u \<Longrightarrow> w = []"
proof (induction "length u" arbitrary: u w rule: less_induct)
  case less
  show ?case
  proof (cases "CHR ''%'' \<in> set u")
    case False
    then show ?thesis using less.prems doPrintf0_no_percent by simp
  next
    case True
    then obtain p t where u: "u = p @ CHR ''%'' # t" and p: "CHR ''%'' \<notin> set p"
      by (meson split_list_first)
    obtain D rest where d: "directive0 t = (D, rest)" by (metis prod.collapse)
    from directive0_spec [OF d] obtain cons where t: "t = cons @ rest"
      and shape: "D = ''%'' \<or> (\<exists>x. D = CHR ''%'' # CHR ''!'' # x)"
      and cnt: "count_list D CHR ''%'' \<ge> 2 \<longrightarrow> count_list cons CHR ''*'' > count_list D CHR ''*''"
      by blast
    have out: "doPrintf0 u = p @ D @ doPrintf0 rest"
      using u p d doPrintf0_literal doPrintf0_directive by simp
    have shorter: "length rest < length u" using u t by simp
    show ?thesis
    proof (rule ccontr)
      assume wne: "w \<noteq> []"
      obtain D' where D': "D = CHR ''%'' # D'" using shape by auto
      have e: "w @ p @ CHR ''%'' # t = p @ CHR ''%'' # (D' @ doPrintf0 rest)"
        using less.prems out u D' by simp
      from first_percent_split [OF e p wne] obtain w1 where w: "w = p @ CHR ''%'' # w1" by blast
      let ?X = "(CHR ''%'' # w1 @ p) @ (CHR ''%'' # cons)"
      have e2: "?X @ rest = D @ doPrintf0 rest"
        using e w t D' by simp
      then obtain us where
        "(?X = D @ us \<and> us @ rest = doPrintf0 rest) \<or> (?X @ us = D \<and> rest = us @ doPrintf0 rest)"
        by (auto simp only: append_eq_append_conv2)
      then have "\<exists>y. D = ?X @ y"
      proof
        assume h: "?X = D @ us \<and> us @ rest = doPrintf0 rest"
        then have "us = []" using less.hyps [OF shorter, of us] by simp
        then show ?thesis using h by simp
      next
        assume "?X @ us = D \<and> rest = us @ doPrintf0 rest"
        then show ?thesis by blast
      qed
      then obtain y where Dy: "D = (CHR ''%'' # w1 @ p) @ (CHR ''%'' # cons) @ y" by auto
      then have "count_list D CHR ''%'' \<ge> 2" by simp
      then have "count_list cons CHR ''*'' > count_list D CHR ''*''" using cnt by simp
      moreover have "count_list D CHR ''*'' \<ge> count_list cons CHR ''*''"
        using Dy by simp
      ultimately show False by simp
    qed
  qed
qed

lemma doPrintf0_changes_percent:
  assumes "CHR ''%'' \<in> set s"
  shows "doPrintf0 s \<noteq> s"
proof
  assume fp: "doPrintf0 s = s"
  obtain p t where s: "s = p @ CHR ''%'' # t" and p: "CHR ''%'' \<notin> set p"
    using assms by (meson split_list_first)
  obtain D rest where d: "directive0 t = (D, rest)" by (metis prod.collapse)
  from directive0_spec [OF d] obtain cons where t: "t = cons @ rest"
    and shape: "D = ''%'' \<or> (\<exists>x. D = CHR ''%'' # CHR ''!'' # x)"
    and ne: "t \<noteq> [] \<longrightarrow> cons \<noteq> []" and pc: "D = ''%'' \<longrightarrow> cons \<noteq> []"
    by blast
  have out: "doPrintf0 s = p @ D @ doPrintf0 rest"
    using s p d doPrintf0_literal doPrintf0_directive by simp
  then have e: "D @ doPrintf0 rest = (CHR ''%'' # cons) @ rest" using fp s t by simp
  show False
  proof (cases "D = ''%''")
    case True
    then have "doPrintf0 rest = cons @ rest" using e by simp
    then have "cons = []" by (rule doPrintf0_no_growth_in_front)
    then show False using pc True by simp
  next
    case False
    then obtain x where Dx: "D = CHR ''%'' # CHR ''!'' # x" using shape by auto
    from e obtain us where
      "(D = (CHR ''%'' # cons) @ us \<and> us @ doPrintf0 rest = rest)
       \<or> (D @ us = CHR ''%'' # cons \<and> doPrintf0 rest = us @ rest)"
      by (auto simp only: append_eq_append_conv2)
    then have "\<exists>us. D = (CHR ''%'' # cons) @ us \<and> us @ doPrintf0 rest = rest"
    proof
      assume "D = (CHR ''%'' # cons) @ us \<and> us @ doPrintf0 rest = rest"
      then show ?thesis by blast
    next
      assume h: "D @ us = CHR ''%'' # cons \<and> doPrintf0 rest = us @ rest"
      then have "us = []" using doPrintf0_no_growth_in_front by blast
      then show ?thesis using h by simp
    qed
    then obtain us where D1: "D = (CHR ''%'' # cons) @ us" and r: "us @ doPrintf0 rest = rest"
      by blast
    show False
    proof (cases cons)
      case Nil
      then have "t = []" using ne by auto
      then have "rest = []" using t by simp
      then have "us = []" using r by simp
      then show False using D1 Nil False by simp
    next
      case (Cons c cs)
      then have "c = CHR ''!''" using D1 Dx by simp
      then have "t = CHR ''!'' # (cs @ rest)" using t Cons by simp
      then have "D = ''%!!(MISSING)''" and "rest = cs @ rest"
        using d directive0_bang [of "cs @ rest"] by auto
      then have "cs = []" and "us = ''!(MISSING)''" using D1 Cons \<open>c = CHR ''!''\<close> by auto
      then have "rest = ''!(MISSING)'' @ doPrintf0 rest" using r by simp
      then show False using missing_tail_no_fixpoint by blast
    qed
  qed
qed

subsection \<open>Redaction of flat objects\<close>

text \<open>Replacing all matches, one position at a time.\<close>

lemma replace_all_skip: "replace_all m r n s = replace_all m r 0 (drop n s)"
proof (induction s arbitrary: n)
  case Nil
  then show ?case by simp
next
  case (Cons c cs)
  show ?case
  proof (cases n)
    case 0
    then show ?thesis by simp
  next
    case (Suc k)
    then show ?thesis using Cons.IH [of k] by simp
  qed
qed

lemma replace_all_match:
  assumes "m (x @ y) = Some y" and "x \<noteq> []"
  shows "replace_all m r 0 (x @ y) = r @ replace_all m r 0 y"
proof -
  obtain c cs where x: "x = c # cs" using assms(2) by (cases x) auto
  have "replace_all m r 0 (c # cs @ y) = r @ replace_all m r (length cs) (cs @ y)"
    using assms(1) x by simp
  also have "replace_all m r (length cs) (cs @ y) = replace_all m r 0 y"
    using replace_all_skip [of m r "length cs" "cs @ y"] by simp
  finally show ?thesis using x by simp
qed

lemma replace_all_nomatch:
  "m (c # cs) = None \<Longrightarrow> replace_all m r 0 (c # cs) = c # replace_all m r 0 cs"
  by simp

lemma match_plain_needs_head:
  "c \<noteq> h \<Longrightarrow> match_plain (h # l) (c # cs) = None"
  by (simp add: match_plain_def)

lemma match_slash_needs_head:
  "c \<noteq> h \<Longrightarrow> match_slash (h # l) (c # cs) = None"
  by (simp add: match_slash_def)

lemma replace_all_plain_run:
  "h \<notin> set x \<Longrightarrow>
   replace_all (match_plain (h # l)) r 0 (x @ y) = x @ replace_all (match_plain (h # l)) r 0 y"
  by (induction x) (auto simp: match_plain_needs_head)

lemma replace_all_slash_id:
  "h \<notin> set s \<Longrightarrow> replace_all (match_slash (h # l)) r 0 s = s"
  by (induction s) (auto simp: match_slash_needs_head)


lemma prefix_upto_quote:
  assumes "CHR 0x22 \<notin> set p" and "CHR 0x22 \<notin> set k"
  shows "prefix (p @ CHR 0x22 # a) (k @ CHR 0x22 # b) \<longleftrightarrow> p = k \<and> prefix a b"
  using assms
proof (induction p arbitrary: k)
  case Nil
  then show ?case by (cases k) auto
next
  case (Cons c p)
  then show ?case by (cases k) auto
qed

lemma upto_quote_run:
  "CHR 0x22 \<notin> set x \<Longrightarrow> CHR 0x0A \<notin> set x \<Longrightarrow> upto_quote (x @ CHR 0x22 # r) = Some r"
  by (induction x) auto

lemma text_char_simps:
  "text_char c \<Longrightarrow> c \<noteq> CHR 0x22 \<and> c \<noteq> CHR 0x5C \<and> c \<noteq> CHR 0x0A \<and> \<not> c < CHR 0x20 \<and> \<not> CHR 0x80 \<le> c"
  by (auto simp: text_char_def)

lemma text_chars_set:
  "list_all text_char x \<Longrightarrow>
     CHR 0x22 \<notin> set x \<and> CHR 0x5C \<notin> set x \<and> CHR 0x0A \<notin> set x"
  using text_char_simps by (auto simp: list_all_iff)

lemma spaces_set:
  "spaces x \<Longrightarrow> CHR 0x22 \<notin> set x \<and> CHR 0x5C \<notin> set x \<and> CHR 0x0A \<notin> set x"
  by (induction x) (simp_all add: spaces_def)

lemma name_char_simps:
  "name_char c \<Longrightarrow> c \<noteq> CHR 0x22 \<and> c \<noteq> CHR '':'' \<and> c \<noteq> CHR '','' \<and> c \<noteq> CHR ''}''
     \<and> c < CHR 0x80 \<and> c \<notin> set ([CHR 0x5C] @ ''.+*?()|[]{}^$'')"
  by (auto simp: name_char_def)

lemma name_chars_set: "list_all name_char p \<Longrightarrow> CHR 0x22 \<notin> set p"
  using name_char_simps by (auto simp: list_all_iff)

lemma name_regexp_literal: "list_all name_char p \<Longrightarrow> regexp_literal p"
  using name_char_simps by (auto simp: regexp_literal_def list_all_iff)

text \<open>No match of the plain pattern starts at a quote that is followed by a separator.\<close>

lemma no_match_before_separator:
  assumes "list_all name_char p" and "\<not> name_char c" and "c \<noteq> CHR 0x22"
  shows "match_plain (CHR 0x22 # p @ [CHR 0x22, CHR '':'']) (CHR 0x22 # c # z) = None"
  using assms by (cases p) (auto simp: match_plain_def)

text \<open>The plain pattern on one field, and on the text of an object.\<close>

lemma field_plain_other:
  assumes p: "list_all name_char p" and f: "field_ok f" and k: "key f \<noteq> p"
      and c: "c = CHR '','' \<or> c = CHR ''}''"
  shows "replace_all (match_plain (CHR 0x22 # p @ [CHR 0x22, CHR '':''])) r 0 (field_text f @ c # y) =
         field_text f @ c # replace_all (match_plain (CHR 0x22 # p @ [CHR 0x22, CHR '':''])) r 0 y"
proof -
  let ?m = "match_plain (CHR 0x22 # p @ [CHR 0x22, CHR '':''])"
  let ?R = "replace_all ?m r 0"
  have qp: "CHR 0x22 \<notin> set p" using p by (rule name_chars_set)
  have qk: "CHR 0x22 \<notin> set (key f)" and qv: "CHR 0x22 \<notin> set (val f)"
    and qpad: "CHR 0x22 \<notin> set (pad f)" and qgap: "CHR 0x22 \<notin> set (CHR '':'' # gap f)"
    using f text_chars_set spaces_set by (auto simp: field_ok_def)
  have run: "\<And>x z. CHR 0x22 \<notin> set x \<Longrightarrow> ?R (x @ z) = x @ ?R z"
    by (rule replace_all_plain_run)
  have cn: "\<not> name_char c" "c \<noteq> CHR 0x22" using c by (auto simp: name_char_def)
  have s1: "\<And>z. ?m (CHR 0x22 # key f @ CHR 0x22 # CHR '':'' # z) = None"
    using k prefix_upto_quote [OF qp qk] by (simp add: match_plain_def)
  have s2: "\<And>z. ?m (CHR 0x22 # CHR '':'' # z) = None"
    using no_match_before_separator [OF p, of "CHR '':''"] by (simp add: name_char_def)
  have s3: "?m (CHR 0x22 # val f @ CHR 0x22 # c # y) = None"
    using c prefix_upto_quote [OF qp qv] by (auto simp add: match_plain_def)
  have s4: "?m (CHR 0x22 # c # y) = None"
    using no_match_before_separator [OF p cn] .
  have s5: "?R (c # y) = c # ?R y" using cn by (simp add: match_plain_def)
  have "?R (field_text f @ c # y) =
        ?R (pad f @ (CHR 0x22 # key f @ CHR 0x22 # CHR '':'' # gap f @ CHR 0x22 # val f @ CHR 0x22 # c # y))"
    by (simp add: field_text_def)
  also have "\<dots> = pad f @ ?R (CHR 0x22 # key f @ CHR 0x22 # CHR '':'' # gap f @ CHR 0x22 # val f @ CHR 0x22 # c # y)"
    using run [OF qpad] .
  also have "?R (CHR 0x22 # key f @ CHR 0x22 # CHR '':'' # gap f @ CHR 0x22 # val f @ CHR 0x22 # c # y) =
        CHR 0x22 # ?R (key f @ (CHR 0x22 # CHR '':'' # gap f @ CHR 0x22 # val f @ CHR 0x22 # c # y))"
    using s1 by simp
  also have "?R (key f @ (CHR 0x22 # CHR '':'' # gap f @ CHR 0x22 # val f @ CHR 0x22 # c # y)) =
        key f @ ?R (CHR 0x22 # CHR '':'' # gap f @ CHR 0x22 # val f @ CHR 0x22 # c # y)"
    using run [OF qk] .
  also have "?R (CHR 0x22 # CHR '':'' # gap f @ CHR 0x22 # val f @ CHR 0x22 # c # y) =
        CHR 0x22 # ?R ((CHR '':'' # gap f) @ (CHR 0x22 # val f @ CHR 0x22 # c # y))"
    using s2 by simp
  also have "?R ((CHR '':'' # gap f) @ (CHR 0x22 # val f @ CHR 0x22 # c # y)) =
        (CHR '':'' # gap f) @ ?R (CHR 0x22 # val f @ CHR 0x22 # c # y)"
    using run [OF qgap] .
  also have "?R (CHR 0x22 # val f @ CHR 0x22 # c # y) = CHR 0x22 # ?R (val f @ (CHR 0x22 # c # y))"
    using s3 by simp
  also have "?R (val f @ (CHR 0x22 # c # y)) = val f @ ?R (CHR 0x22 # c # y)"
    using run [OF qv] .
  also have "?R (CHR 0x22 # c # y) = CHR 0x22 # c # ?R y"
    using s4 s5 by simp
  finally show ?thesis by (simp add: field_text_def)
qed

lemma field_plain_match:
  assumes p: "list_all name_char p" and f: "field_ok f" and k: "key f = p"
  shows "replace_all (match_plain (CHR 0x22 # p @ [CHR 0x22, CHR '':'']))
           (CHR 0x22 # p @ CHR 0x22 # '': '' @ CHR 0x22 # mask @ [CHR 0x22]) 0 (field_text f @ y) =
         field_text (mask_field [p] f) @
         replace_all (match_plain (CHR 0x22 # p @ [CHR 0x22, CHR '':'']))
           (CHR 0x22 # p @ CHR 0x22 # '': '' @ CHR 0x22 # mask @ [CHR 0x22]) 0 y"
proof -
  let ?lit = "CHR 0x22 # p @ [CHR 0x22, CHR '':'']"
  let ?m = "match_plain ?lit"
  let ?r = "CHR 0x22 # p @ CHR 0x22 # '': '' @ CHR 0x22 # mask @ [CHR 0x22]"
  let ?R = "replace_all ?m ?r 0"
  let ?core = "?lit @ gap f @ CHR 0x22 # val f @ [CHR 0x22]"
  have qv: "CHR 0x22 \<notin> set (val f)" "CHR 0x0A \<notin> set (val f)"
    and qpad: "CHR 0x22 \<notin> set (pad f)"
    and qgap: "CHR 0x22 \<notin> set (gap f)" "CHR 0x0A \<notin> set (gap f)"
    using f text_chars_set spaces_set by (auto simp: field_ok_def)
  have "drop (length ?lit) (?core @ y) = gap f @ CHR 0x22 # (val f @ CHR 0x22 # y)" by simp
  moreover have "upto_quote (gap f @ CHR 0x22 # (val f @ CHR 0x22 # y)) = Some (val f @ CHR 0x22 # y)"
    using qgap by (rule upto_quote_run)
  moreover have "upto_quote (val f @ CHR 0x22 # y) = Some y"
    using qv by (rule upto_quote_run)
  moreover have "prefix ?lit (?core @ y)" by simp
  ultimately have m: "?m (?core @ y) = Some y"
    unfolding match_plain_def by (simp del: append.simps drop_append drop_Cons')
  have "?R (?core @ y) = ?r @ ?R y"
    using m by (rule replace_all_match) simp
  moreover have "field_text f @ y = pad f @ (?core @ y)" using k by (simp add: field_text_def)
  moreover have "?R (pad f @ (?core @ y)) = pad f @ ?R (?core @ y)"
    using qpad by (rule replace_all_plain_run)
  ultimately show ?thesis using k by (simp add: field_text_def mask_field_def)
qed

lemma field_plain_pass:
  assumes "list_all name_char p" and "field_ok f" and "c = CHR '','' \<or> c = CHR ''}''"
  shows "replace_all (match_plain (CHR 0x22 # p @ [CHR 0x22, CHR '':'']))
           (CHR 0x22 # p @ CHR 0x22 # '': '' @ CHR 0x22 # mask @ [CHR 0x22]) 0 (field_text f @ c # y) =
         field_text (mask_field [p] f) @ c #
         replace_all (match_plain (CHR 0x22 # p @ [CHR 0x22, CHR '':'']))
           (CHR 0x22 # p @ CHR 0x22 # '': '' @ CHR 0x22 # mask @ [CHR 0x22]) 0 y"
proof (cases "key f = p")
  case True
  have cq: "c \<noteq> CHR 0x22" using assms(3) by auto
  show ?thesis
    using field_plain_match [OF assms(1,2) True, of "c # y"] cq
    by (simp add: match_plain_def)
next
  case False
  then show ?thesis
    using field_plain_other [OF assms(1,2) False assms(3)] by (simp add: mask_field_def)
qed

lemma fields_plain_pass:
  assumes "list_all name_char p" and "list_all field_ok fs"
  shows "replace_all (match_plain (CHR 0x22 # p @ [CHR 0x22, CHR '':'']))
           (CHR 0x22 # p @ CHR 0x22 # '': '' @ CHR 0x22 # mask @ [CHR 0x22]) 0 (fields_text fs) =
         fields_text (map (mask_field [p]) fs)"
  using assms(2)
proof (induction fs rule: fields_text.induct)
  case 1
  then show ?case by (simp add: match_plain_def)
next
  case (2 f)
  then have f: "field_ok f" by simp
  show ?case
    using field_plain_pass [OF assms(1) f, of "CHR ''}''" "[]"] by simp
next
  case (3 f g r)
  then have f: "field_ok f" and rest: "list_all field_ok (g # r)" by simp_all
  show ?case
    using field_plain_pass [OF assms(1) f, of "CHR '',''" "fields_text (g # r)"] "3.IH" [OF rest]
    by simp
qed

lemma field_text_no_backslash: "field_ok f \<Longrightarrow> CHR 0x5C \<notin> set (field_text f)"
  using text_chars_set spaces_set by (auto simp: field_ok_def field_text_def)

lemma fields_text_no_backslash: "list_all field_ok fs \<Longrightarrow> CHR 0x5C \<notin> set (fields_text fs)"
  by (induction fs rule: fields_text.induct) (auto simp: field_text_no_backslash)

lemma mask_field_ok: "field_ok f \<Longrightarrow> field_ok (mask_field ps f)"
  by (simp add: mask_field_def field_ok_def spaces_def mask_def text_char_def)

lemma obscureParam_object:
  assumes "list_all name_char p" and "list_all field_ok fs"
  shows "obscureParam (object_text fs) p = Ok (object_text (map (mask_field [p]) fs))"
proof -
  have nb: "CHR 0x5C \<notin> set (object_text fs)"
    using fields_text_no_backslash [OF assms(2)] by (simp add: object_text_def)
  have slash: "\<And>l r. replace_all (match_slash (CHR 0x5C # l)) r 0 (object_text fs) = object_text fs"
    using nb by (rule replace_all_slash_id)
  have plain: "replace_all (match_plain (CHR 0x22 # p @ [CHR 0x22, CHR '':'']))
           (CHR 0x22 # p @ CHR 0x22 # '': '' @ CHR 0x22 # mask @ [CHR 0x22]) 0 (object_text fs) =
         object_text (map (mask_field [p]) fs)"
    using fields_plain_pass [OF assms] by (simp add: object_text_def match_plain_def)
  show ?thesis
    using name_regexp_literal [OF assms(1)] slash plain
    by (simp add: obscureParam_def Let_def)
qed

text \<open>A field name with an unclosed parenthesis: the call panics while compiling.\<close>

lemma obscureParam_unclosed_paren:
  assumes "unclosed_paren p"
  shows "obscureParam jsn p = Panics (mustCompile_panic (slash_pattern p))"
proof -
  have "CHR ''('' \<in> set p" using assms by (simp add: unclosed_paren_def)
  then have "\<not> regexp_literal p" by (auto simp: regexp_literal_def list_all_iff)
  then show ?thesis using assms by (simp add: obscureParam_def)
qed

lemma unclosed_paren_example:
  "Info (initial_config\<lparr> obscureSensitiveDataEnabled := True, sensitiveParams := [''(''] \<rparr>)
     example_env [] [GStr ''hello''] =
   Panicked (mustCompile_panic (slash_pattern ''('')) []"
  by code_simp

lemma mask_field_Cons: "mask_field ps (mask_field [p] f) = mask_field (p # ps) f"
  by (simp add: mask_field_def)

lemma obscure_loop_object:
  assumes "list_all (list_all name_char) ps" and "list_all field_ok fs"
  shows "obscure_loop ps (object_text fs) = Ok (object_text (map (mask_field ps) fs))"
  using assms
proof (induction ps arbitrary: fs)
  case Nil
  have "map (mask_field []) fs = fs" by (induction fs) (simp_all add: mask_field_def)
  then show ?case by simp
next
  case (Cons p ps)
  then have p: "list_all name_char p" and ps: "list_all (list_all name_char) ps" by simp_all
  have ok: "list_all field_ok (map (mask_field [p]) fs)"
    using Cons.prems(2) mask_field_ok by (simp add: list_all_iff)
  show ?case
    using obscureParam_object [OF p Cons.prems(2)] Cons.IH [OF ps ok]
    by (simp add: mask_field_Cons comp_def)
qed

text \<open>The scanner on the text of an object.\<close>

lemma scan_spaces:
  assumes "spaces x" and "st = SBeginValue \<or> st = SBeginString \<or> st = SBeginStringOrEmpty"
  shows "foldl step (st, F) x = (st, F)"
  using assms by (induction x) (auto simp: spaces_def isSpace_def)

lemma scan_text:
  "list_all text_char x \<Longrightarrow>
   foldl step (SInString k acc, F) x = (SInString k (rev x @ acc), F)"
proof (induction x arbitrary: acc)
  case Nil
  then show ?case by simp
next
  case (Cons c x)
  then have c: "text_char c" and x: "list_all text_char x" by simp_all
  have "step (SInString k acc, F) c = (SInString k (c # acc), F)"
    using text_char_simps [OF c] by simp
  then show ?case using Cons.IH [OF x, of "c # acc"] by simp
qed

lemma scan_field:
  assumes f: "field_ok f" and st: "st = SBeginString \<or> st = SBeginStringOrEmpty"
  shows "foldl step (st, FObj kvs None # S) (field_text f) =
         (SAfterValue, FObj ((key f, JStr (val f)) # kvs) None # S)"
proof -
  have pad: "spaces (pad f)" and gap: "spaces (gap f)"
    and k: "list_all text_char (key f)" and v: "list_all text_char (val f)"
    using f by (simp_all add: field_ok_def)
  have a1: "foldl step (st, FObj kvs None # S) (pad f) = (st, FObj kvs None # S)"
    using scan_spaces [OF pad] st by blast
  have a2: "step (st, FObj kvs None # S) (CHR 0x22) = (SInString True [], FObj kvs None # S)"
    using st by (auto simp: isSpace_def)
  have a3: "foldl step (SInString True [], FObj kvs None # S) (key f) =
            (SInString True (rev (key f)), FObj kvs None # S)"
    using scan_text [OF k, of True "[]"] by simp
  have a4: "step (SInString True (rev (key f)), FObj kvs None # S) (CHR 0x22) =
            (SObjColon, FObj kvs (Some (key f)) # S)"
    by (simp add: end_string_def)
  have a5: "step (SObjColon, FObj kvs (Some (key f)) # S) (CHR '':'') =
            (SBeginValue, FObj kvs (Some (key f)) # S)"
    by (simp add: isSpace_def)
  have a6: "foldl step (SBeginValue, FObj kvs (Some (key f)) # S) (gap f) =
            (SBeginValue, FObj kvs (Some (key f)) # S)"
    using scan_spaces [OF gap] by blast
  have a7: "step (SBeginValue, FObj kvs (Some (key f)) # S) (CHR 0x22) =
            (SInString False [], FObj kvs (Some (key f)) # S)"
    by (simp add: isSpace_def begin_value_def)
  have a8: "foldl step (SInString False [], FObj kvs (Some (key f)) # S) (val f) =
            (SInString False (rev (val f)), FObj kvs (Some (key f)) # S)"
    using scan_text [OF v, of False "[]"] by simp
  have a9: "step (SInString False (rev (val f)), FObj kvs (Some (key f)) # S) (CHR 0x22) =
            (SAfterValue, FObj ((key f, JStr (val f)) # kvs) None # S)"
    by (simp add: end_string_def)
  show ?thesis
    unfolding field_text_def foldl_append foldl_Cons foldl_Nil a1 a2 a3 a4 a5 a6 a7 a8 a9 ..
qed

lemma scan_fields:
  assumes "list_all field_ok fs" and "fs \<noteq> []"
      and "st = SBeginString \<or> st = SBeginStringOrEmpty"
  shows "foldl step (st, [FObj kvs None]) (fields_text fs) =
         (SEndTop (JObj (rev kvs @ map member fs)), [])"
  using assms
proof (induction fs arbitrary: st kvs rule: fields_text.induct)
  case 1
  then show ?case by simp
next
  case (2 f)
  then have f: "field_ok f" by simp
  have "step (SAfterValue, [FObj ((key f, JStr (val f)) # kvs) None]) (CHR ''}'') =
        (SEndTop (JObj (rev kvs @ [member f])), [])"
    by (simp add: after_value_def isSpace_def member_def)
  then show ?case using scan_field [OF f "2.prems"(3), of kvs "[]"] by simp
next
  case (3 f g r)
  then have f: "field_ok f" and rest: "list_all field_ok (g # r)" by simp_all
  have sep: "step (SAfterValue, [FObj ((key f, JStr (val f)) # kvs) None]) (CHR '','') =
        (SBeginString, [FObj ((key f, JStr (val f)) # kvs) None])"
    by (simp add: after_value_def isSpace_def)
  have "foldl step (SBeginString, [FObj ((key f, JStr (val f)) # kvs) None]) (fields_text (g # r)) =
        (SEndTop (JObj (rev ((key f, JStr (val f)) # kvs) @ map member (g # r))), [])"
    using "3.IH" [OF rest, of SBeginString "(key f, JStr (val f)) # kvs"] by simp
  then show ?case
    using scan_field [OF f "3.prems"(3), of kvs "[]"] sep by (simp add: member_def)
qed

lemma json_scan_object:
  assumes "list_all field_ok fs"
  shows "json_scan (object_text fs) = Some (JObj (map member fs))"
proof -
  have open_brace: "step (SBeginValue, []) (CHR ''{'') = (SBeginStringOrEmpty, [FObj [] None])"
    by (simp add: isSpace_def begin_value_def push_def maxNestingDepth_def)
  show ?thesis
  proof (cases fs)
    case Nil
    then show ?thesis
      using open_brace by (simp add: json_scan_def object_text_def isSpace_def)
  next
    case (Cons f r)
    then have "fs \<noteq> []" by simp
    from scan_fields [OF assms this, of SBeginStringOrEmpty "[]"]
    show ?thesis using open_brace by (simp add: json_scan_def object_text_def)
  qed
qed

lemma unquote_text: "list_all text_char x \<Longrightarrow> unquote x = Some x"
proof (induction x rule: unquote.induct)
  case 1
  then show ?case by simp
next
  case (2 c)
  then show ?case using text_char_simps [of c] by simp
next
  case (3 c d cs)
  then have c: "text_char c" and r: "list_all text_char (d # cs)" by simp_all
  have "c \<noteq> CHR 0x5C" "\<not> CHR 0x80 \<le> c" using text_char_simps [OF c] by simp_all
  then show ?case using "3.IH"(2) r by simp
qed

lemma decode_members_fields:
  "list_all field_ok fs \<Longrightarrow>
   decode_members (map (\<lambda>(k, v). (unquote k, decode v)) (map member fs)) =
     Some (map member fs, False)"
proof (induction fs)
  case Nil
  then show ?case by simp
next
  case (Cons f fs)
  then have "list_all text_char (key f)" "list_all text_char (val f)"
    by (simp_all add: field_ok_def)
  then have "unquote (key f) = Some (key f)" "unquote (val f) = Some (val f)"
    by (simp_all add: unquote_text)
  then show ?case using Cons by (simp add: member_def)
qed

lemma json_Unmarshal_object:
  assumes "list_all field_ok fs"
  shows "json_Unmarshal (object_text fs) = Some (JObj (map_entries (map member fs)), False)"
    and "json_Valid (object_text fs)"
  using json_scan_object [OF assms] decode_members_fields [OF assms]
  by (simp_all add: json_Unmarshal_def json_Valid_def)

text \<open>Where redaction does what is asked of it: redaction is enabled with field names made
  of letters, digits and underscores, and the argument is the text of a flat object with
  string fields, or a value that \<open>json.Marshal\<close> writes as such a text. The message is then
  the decoded object in which a field with a configured key holds the mask and every other
  field its own value.\<close>

lemma redaction_of_flat_objects:
  assumes "obscureSensitiveDataEnabled cfg" and "sensitiveParams cfg \<noteq> []"
      and "list_all (list_all name_char) (sensitiveParams cfg)"
      and "list_all field_ok fs"
  shows "composeMessage cfg [GStr (object_text fs)] =
           Ok (MParsed (JObj (map_entries (map (\<lambda>f. member (mask_field (sensitiveParams cfg) f)) fs))))
       \<and> composeMessage cfg [GOther v (Some (object_text fs))] =
           Ok (MParsed (JObj (map_entries (map (\<lambda>f. member (mask_field (sensitiveParams cfg) f)) fs))))
       \<and> (\<forall>f \<in> set fs. member (mask_field (sensitiveParams cfg) f) =
             (key f, JStr (if key f \<in> set (sensitiveParams cfg) then mask else val f)))"
proof -
  let ?fs' = "map (mask_field (sensitiveParams cfg)) fs"
  have ok': "list_all field_ok ?fs'"
    using assms(4) mask_field_ok by (simp add: list_all_iff)
  have red: "obscureSensitiveData cfg (object_text fs) = Ok (object_text ?fs')"
    using obscure_loop_object [OF assms(3,4)] by (simp add: obscureSensitiveData_def)
  have obj: "strToObj (object_text ?fs') = Ok (MParsed (JObj (map_entries (map member ?fs'))))"
    using json_Unmarshal_object [OF ok'] by (simp add: strToObj_def)
  have to: "obscureToObj cfg (object_text fs) =
              Ok (MParsed (JObj (map_entries (map (\<lambda>f. member (mask_field (sensitiveParams cfg) f)) fs))))"
    using red obj by (simp add: obscureToObj_def comp_def)
  have m: "\<forall>f \<in> set fs. member (mask_field (sensitiveParams cfg) f) =
             (key f, JStr (if key f \<in> set (sensitiveParams cfg) then mask else val f))"
    by (simp add: member_def mask_field_def)
  show ?thesis
    using assms(1,2) to m by (simp add: composeMessage_def adaptMessage_def)
qed

lemma redaction_example:
  "composeMessage redacting_config [GStr ''{\"u\":\"x\",\"password\":\"secret\"}''] =
     Ok (MParsed (JObj [(''password'', JStr ''**********''), (''u'', JStr ''x'')]))
   \<and> composeLog redacting_config example_env ''info'' [GStr ''{\"u\":\"x\",\"password\":\"secret\"}''] =
     Ok ''{\"level\":\"info\",\"message\":{\"password\":\"**********\",\"u\":\"x\"},\"time\":\"2021-03-01 12:00:00.123456789 +0100 CET \"}''"
  by code_simp

subsection \<open>Level registry\<close>

text \<open>
  Claim C9. The level setter is a total function on strings. Given one of the seven level
  names it stores that level's rank as the threshold; given any other string it stores the
  rank of info. It changes no other setting.
\<close>

theorem C9_LogLevel_sets_rank_or_info:
  "logLevel (LogLevel level c) =
     (if level = ''trace'' then traceLevel
      else if level = ''debug'' then debugLevel
      else if level = ''info'' then infoLevel
      else if level = ''warn'' then warnLevel
      else if level = ''error'' then errorLevel
      else if level = ''panic'' then panicLevel
      else if level = ''fatal'' then fatalLevel
      else infoLevel)
   \<and> LogLevel level c = c\<lparr>logLevel := logLevel (LogLevel level c)\<rparr>"
  by (simp add: LogLevel_def Let_def logLevels_def logLevels_tab_def level_defs label_defs)

theorem C9_witness:
  "logLevel (LogLevel ''warn'' initial_config) = 4
   \<and> logLevel (LogLevel ''verbose'' (LogLevel ''error'' initial_config)) = 3"
  using C9_LogLevel_sets_rank_or_info [of "''warn''" initial_config]
        C9_LogLevel_sets_rank_or_info [of "''verbose''" "LogLevel ''error'' initial_config"]
  by (simp add: level_defs)

text \<open>For a call whose record is composed, \<open>printLog\<close> writes it exactly when the rank of the
  label is at least the threshold, and lowering the threshold keeps every call emitted that
  was emitted before.\<close>

lemma printLog_emits_iff_rank_reaches_threshold:
  assumes "composeLog cfg e label message = Ok logRecord"
  shows "((printLog cfg e w label message = Ok (w @ [doPrintf0 logRecord]))
            = (logLevels label \<ge> logLevel cfg))
       \<and> ((printLog cfg e w label message = Ok w) = (logLevels label < logLevel cfg))
       \<and> (t \<le> t' \<longrightarrow>
            printLog (cfg\<lparr>logLevel := t'\<rparr>) e w label message = Ok (w @ [doPrintf0 logRecord]) \<longrightarrow>
            printLog (cfg\<lparr>logLevel := t\<rparr>) e w label message = Ok (w @ [doPrintf0 logRecord]))"
  using assms by (auto simp add: printLog_def)

lemma entry_points_emit_iff_rank_reaches_threshold:
  "composeLog cfg e ''trace'' ms = Ok r \<Longrightarrow>
     Trace cfg e w ms = Returned (if traceLevel \<ge> logLevel cfg then w @ [doPrintf0 r] else w)"
  "composeLog cfg e ''debug'' ms = Ok r \<Longrightarrow>
     Debug cfg e w ms = Returned (if debugLevel \<ge> logLevel cfg then w @ [doPrintf0 r] else w)"
  "composeLog cfg e ''info'' ms = Ok r \<Longrightarrow>
     Info cfg e w ms = Returned (if infoLevel \<ge> logLevel cfg then w @ [doPrintf0 r] else w)"
  "composeLog cfg e ''warn'' ms = Ok r \<Longrightarrow>
     Warn cfg e w ms = Returned (if warnLevel \<ge> logLevel cfg then w @ [doPrintf0 r] else w)"
  "composeLog cfg e ''error'' ms = Ok r \<Longrightarrow>
     Error cfg e w ms = Returned (if errorLevel \<ge> logLevel cfg then w @ [doPrintf0 r] else w)"
  "composeLog cfg e ''fatal'' ms = Ok r \<Longrightarrow>
     Fatal cfg e w ms = Exited 1 (if fatalLevel \<ge> logLevel cfg then w @ [doPrintf0 r] else w)"
  by (simp_all add: entry_points_printLog printLog_def run_def logLevels_known level_defs)

text \<open>
  Claim C3. The claim says that a call at a level other than panic writes a record exactly
  when the rank of the level is at least the threshold. In the code a call below the
  threshold never writes, but a call at or above it may not write either: with the
  threshold at trace every level is enabled, and each of the six entry points, called with
  the arguments \<open>(nil, nil)\<close>, panics in \<open>stringify\<close> and leaves the sink as it was.
\<close>

theorem C3_enabled_levels_write_nothing_for_nil_arguments:
  "logLevel (LogLevel ''trace'' initial_config) \<le> logLevels traceLabel
   \<and> logLevel (LogLevel ''trace'' initial_config) \<le> logLevels debugLabel
   \<and> logLevel (LogLevel ''trace'' initial_config) \<le> logLevels infoLabel
   \<and> logLevel (LogLevel ''trace'' initial_config) \<le> logLevels warnLabel
   \<and> logLevel (LogLevel ''trace'' initial_config) \<le> logLevels errorLabel
   \<and> logLevel (LogLevel ''trace'' initial_config) \<le> logLevels fatalLabel
   \<and> Trace (LogLevel ''trace'' initial_config) e w [GNil, GNil] =
       Panicked ''runtime error: slice bounds out of range [:-1]'' w
   \<and> Debug (LogLevel ''trace'' initial_config) e w [GNil, GNil] =
       Panicked ''runtime error: slice bounds out of range [:-1]'' w
   \<and> Info (LogLevel ''trace'' initial_config) e w [GNil, GNil] =
       Panicked ''runtime error: slice bounds out of range [:-1]'' w
   \<and> Warn (LogLevel ''trace'' initial_config) e w [GNil, GNil] =
       Panicked ''runtime error: slice bounds out of range [:-1]'' w
   \<and> Error (LogLevel ''trace'' initial_config) e w [GNil, GNil] =
       Panicked ''runtime error: slice bounds out of range [:-1]'' w
   \<and> Fatal (LogLevel ''trace'' initial_config) e w [GNil, GNil] =
       Panicked ''runtime error: slice bounds out of range [:-1]'' w"
proof -
  have t: "logLevel (LogLevel ''trace'' initial_config) = 1"
    by (simp add: LogLevel_def Let_def logLevels_known)
  have c: "\<And>l. composeLog (LogLevel ''trace'' initial_config) e l [GNil, GNil] =
             Panics ''runtime error: slice bounds out of range [:-1]''"
    by (simp add: composeLog_def composeMessage_def stringify_def)
  show ?thesis
    by (simp add: t c entry_points_printLog printLog_def run_def logLevels_known label_defs)
qed

subsection \<open>Message composition\<close>

text \<open>
  Claim C4. The claim says that no entry point other than panic and fatal panics, for any
  argument list. The code does: for a call with two or more arguments that are all nil the
  slice expression at the end of \<open>stringify\<close> is out of range, and \<open>Info(nil, nil)\<close> under the
  initial configuration panics with a runtime error and writes nothing.
\<close>

theorem C4_Info_nil_nil_panics:
  "Info initial_config e w [GNil, GNil] =
     Panicked ''runtime error: slice bounds out of range [:-1]'' w"
  by (simp add: Info_def run_def printLog_def composeLog_def composeMessage_def stringify_def
      initial_config_def logLevels_def logLevels_tab_def level_defs label_defs)

text \<open>
  Claim C5. For a call with two or more arguments whose first argument is a string with a
  percent sign, the message is the Go string that \<open>fmt.Sprintf\<close> returns for that string and
  the remaining arguments. Nothing else is applied to it: the result does not depend on the
  redaction settings, and it is encoded as a JSON string, valid JSON or not.
\<close>

theorem C5_format_is_final_text:
  assumes "CHR ''%'' \<in> set msg0"
  shows "composeMessage cfg (GStr msg0 # a # as) =
           (case Sprintf msg0 (a # as) of Some t \<Rightarrow> Ok (MString t) | None \<Rightarrow> Unmodelled)
       \<and> (\<forall>t. marshal_message (MString t) = enc_of (json_quote t))"
  using assms by (simp add: composeMessage_def)

theorem C5_witness:
  "composeMessage redacting_config [GStr ''%d left'', GInt 2] = Ok (MString ''2 left'')
   \<and> composeMessage redacting_config [GStr ''%s'', GStr ''{\"password\":\"x\"}''] =
       Ok (MString ''{\"password\":\"x\"}'')"
proof -
  have p1: "CHR ''%'' \<in> set ''%d left''" and p2: "CHR ''%'' \<in> set ''%s''" by simp_all
  have s1: "Sprintf ''%d left'' [GInt 2] = Some ''2 left''" by code_simp
  have s2: "Sprintf ''%s'' [GStr ''{\"password\":\"x\"}''] = Some ''{\"password\":\"x\"}''"
    by code_simp
  show ?thesis
    using C5_format_is_final_text [OF p1, of redacting_config "GInt 2" "[]"]
          C5_format_is_final_text [OF p2, of redacting_config "GStr ''{\"password\":\"x\"}''" "[]"]
    by (simp add: s1 s2)
qed

text \<open>
  Claim C6. The claim gives, for every call with two or more arguments that is not a
  format call, the texts of the arguments that are not nil joined by a space. The code
  returns that text when some argument is not nil (\<open>composeMessage_chain_joined\<close>); when all
  arguments are nil it returns no message: \<open>stringify\<close> panics on the empty text.
\<close>

theorem C6_chain_nil_nil_panics:
  "composeMessage cfg [GNil, GNil] = Panics ''runtime error: slice bounds out of range [:-1]''"
  by (simp add: composeMessage_def stringify_def)

subsection \<open>The record\<close>

text \<open>
  Claim C8. The claim says that, for every argument list, the panic entry point panics
  with the rendered record as its payload. \<open>Panic\<close> never reads the threshold and never
  writes, but for the argument list \<open>(nil, nil)\<close> no record is rendered: the payload is the
  runtime error of \<open>stringify\<close>.
\<close>

theorem C8_Panic_nil_nil_payload:
  "Panic cfg e w [GNil, GNil] =
     Panicked ''runtime error: slice bounds out of range [:-1]'' w"
  by (simp add: Panic_def composeLog_def composeMessage_def stringify_def)

text \<open>When the record is composed, \<open>Panic\<close> panics with it, whatever the threshold, and the
  sink is as before.\<close>

lemma Panic_payload_is_record:
  "composeLog cfg e ''panic'' ms = Ok logRecord \<Longrightarrow>
   Panic (cfg\<lparr>logLevel := t\<rparr>) e w ms = Panicked logRecord w"
  by (simp add: Panic_def label_defs)


text \<open>A call with one string argument: let \<open>s'\<close> be the argument, after redaction when
  redaction is enabled with a field name configured. If \<open>s'\<close> is valid JSON the message is
  what \<open>json.Unmarshal\<close> left in \<open>obj\<close>, never a Go string holding the text; the record
  keeps it, and it is encoded as that value (for a value that is not itself a string the
  encoding does not start with a quote). If \<open>s'\<close> is not valid JSON the message is the
  string \<open>s'\<close>.\<close>

lemma single_string_decoded_or_literal:
  assumes "(if obscureSensitiveDataEnabled cfg \<and> sensitiveParams cfg \<noteq> []
            then obscureSensitiveData cfg s else Ok s) = Ok s'"
  shows "(json_Valid s' \<longrightarrow>
            composeMessage cfg [GStr s] =
              (case json_Unmarshal s' of Some (v, err) \<Rightarrow> Ok (MParsed v) | None \<Rightarrow> Unmodelled)
            \<and> (\<forall>t. composeMessage cfg [GStr s] \<noteq> Ok (MString t)))
       \<and> (\<forall>v. marshal_message (MParsed v) = enc_of (marshal_json v)
              \<and> Message (buildRecord cfg e level (MParsed v)) = MParsed v
              \<and> (\<forall>t. marshal_json v = Some t \<longrightarrow> (\<forall>x. v \<noteq> JStr x) \<longrightarrow>
                     t \<noteq> [] \<and> hd t \<noteq> CHR 0x22))
       \<and> (\<not> json_Valid s' \<longrightarrow>
            composeMessage cfg [GStr s] = Ok (MString s')
            \<and> Message (buildRecord cfg e level (MString s')) = MString s')"
proof -
  have cm: "composeMessage cfg [GStr s] = strToObj s'"
    using assms
    by (auto simp: composeMessage_def adaptMessage_def obscureToObj_def split: if_splits)
  have br: "\<And>m. Message (buildRecord cfg e level m) = m"
    by (simp add: buildRecord_def Let_def)
  show ?thesis
    using marshal_json_native
    by (auto simp: cm br strToObj_def split: option.splits)
qed

lemma single_string_examples:
  "composeLog initial_config example_env ''info''
     [GStr ''{\"b\":[1,-20,true,false,null,\"x<y\"],\"a\":{},\"b\":[]}''] =
     Ok ''{\"level\":\"info\",\"message\":{\"a\":{},\"b\":[]},\"time\":\"2021-03-01 12:00:00.123456789 +0100 CET \"}''
   \<and> composeLog initial_config example_env ''info'' [GStr ''[1,-20,true,false,null,\"x y\",{\"k\":[]}]''] =
     Ok ''{\"level\":\"info\",\"message\":[1,-20,true,false,null,\"x y\",{\"k\":[]}],\"time\":\"2021-03-01 12:00:00.123456789 +0100 CET \"}''
   \<and> composeLog redacting_config example_env ''info'' [GStr ''hello''] =
     Ok ''{\"level\":\"info\",\"message\":\"hello\",\"time\":\"2021-03-01 12:00:00.123456789 +0100 CET \"}''"
  by code_simp

lemma num_parts_1e999: "num_parts ''1e999'' = (1, 999)"
  by code_simp

lemma overflow_1e999: "float64_overflow ''1e999''"
  by (simp add: float64_overflow_def num_parts_1e999 float64_limit_def)


text \<open>
  Claim C1. The claim says that a single string argument that is valid JSON gives the
  parsed value as the message. In the code this fails for valid JSON with a number that is
  out of the range of \<open>float64\<close>: \<open>json.Valid\<close> accepts the text, \<open>json.Unmarshal\<close> returns a
  range error that \<open>strToObj\<close> drops, and \<open>obj\<close> holds \<open>nil\<close> where the number was. The call
  \<open>Info("1e999")\<close> is logged with the message \<open>null\<close>, and \<open>[1e999,2]\<close> with \<open>[null,2]\<close>.
\<close>

theorem C1_number_out_of_range_is_logged_as_null:
  "json_Valid ''1e999''
   \<and> json_scan ''1e999'' = Some (JNum ''1e999'')
   \<and> json_Unmarshal ''1e999'' = Some (JNull, True)
   \<and> composeMessage initial_config [GStr ''1e999''] = Ok (MParsed JNull)
   \<and> composeLog initial_config example_env ''info'' [GStr ''1e999''] =
       Ok ''{\"level\":\"info\",\"message\":null,\"time\":\"2021-03-01 12:00:00.123456789 +0100 CET \"}''
   \<and> composeMessage initial_config [GStr ''[1e999,2]''] = Ok (MParsed (JArr [JNull, JNum ''2'']))"
proof -
  have sc: "json_scan ''1e999'' = Some (JNum ''1e999'')" by code_simp
  have va: "json_Valid ''1e999''" using sc by (simp add: json_Valid_def)
  have un: "json_Unmarshal ''1e999'' = Some (JNull, True)"
    using sc overflow_1e999 by (simp add: json_Unmarshal_def)
  have off: "obscureSensitiveDataEnabled initial_config = False"
    by (simp add: initial_config_def)
  have cm: "composeMessage initial_config [GStr ''1e999''] = Ok (MParsed JNull)"
    using va un off by (simp add: composeMessage_def adaptMessage_def strToObj_def)
  have pp: "\<not> JSONPrettyPrint initial_config" by (simp add: initial_config_def)
  have mr: "marshal_record (buildRecord initial_config example_env ''info'' (MParsed JNull)) =
      Enc ''{\"level\":\"info\",\"message\":null,\"time\":\"2021-03-01 12:00:00.123456789 +0100 CET \"}''"
    by code_simp
  have co: "colorize initial_config ''info'' = (\<lambda>x. x)"
    by (rule ext) (simp add: colorize_def initial_config_def)
  have cl: "composeLog initial_config example_env ''info'' [GStr ''1e999''] =
       Ok ''{\"level\":\"info\",\"message\":null,\"time\":\"2021-03-01 12:00:00.123456789 +0100 CET \"}''"
    unfolding composeLog_def cm using pp mr co by (simp add: Let_def)
  have sc2: "json_scan ''[1e999,2]'' = Some (JArr [JNum ''1e999'', JNum ''2''])" by code_simp
  have n2: "\<not> float64_overflow ''2''" by code_simp
  have un2: "json_Unmarshal ''[1e999,2]'' = Some (JArr [JNull, JNum ''2''], True)"
    using sc2 overflow_1e999 n2 by (simp add: json_Unmarshal_def)
  have cm2: "composeMessage initial_config [GStr ''[1e999,2]''] = Ok (MParsed (JArr [JNull, JNum ''2'']))"
    using sc2 un2 off by (simp add: composeMessage_def adaptMessage_def strToObj_def json_Valid_def)
  show ?thesis using va sc un cm cl cm2 by blast
qed

text \<open>
  Claim C7, as the code has it. The time field is the text of \<open>time.Now().String()\<close> up to
  its first letter \<open>m\<close>. For a date, time and zone written without that letter this is the
  text before the monotonic clock reading: date and time, the fraction of the second down
  to the nanosecond when it is not zero, and the zone, followed by a space.
\<close>

theorem C7_time_is_clock_text_before_monotonic_reading:
  "Time (buildRecord cfg e level msg) = takeWhile (\<lambda>c. c \<noteq> CHR ''m'') (time_String (now e))
   \<and> (CHR ''m'' \<notin> set (date_time (now e)) \<and> CHR ''m'' \<notin> set (zone (now e)) \<longrightarrow>
        Time (buildRecord cfg e level msg) =
          date_time (now e) @ frac (nsec (now e)) @ '' '' @ zone (now e) @ '' '')"
proof -
  have t: "Time (buildRecord cfg e level msg) =
             takeWhile (\<lambda>c. c \<noteq> CHR ''m'') (time_String (now e))"
    by (simp add: buildRecord_def Let_def)
  have "takeWhile (\<lambda>c. c \<noteq> CHR ''m'') (time_String (now e)) =
          date_time (now e) @ frac (nsec (now e)) @ '' '' @ zone (now e) @ '' ''"
    if "CHR ''m'' \<notin> set (date_time (now e))" and "CHR ''m'' \<notin> set (zone (now e))"
  proof -
    let ?a = "date_time (now e) @ frac (nsec (now e)) @ '' '' @ zone (now e) @ '' ''"
    have split: "time_String (now e) = ?a @ (CHR ''m'' # CHR ''='' # mono (now e))"
      by (simp add: time_String_def)
    have "\<forall>c \<in> set ?a. c \<noteq> CHR ''m''"
      using that frac_not_m [of "nsec (now e)"] by auto
    then have "takeWhile (\<lambda>c. c \<noteq> CHR ''m'') (?a @ (CHR ''m'' # CHR ''='' # mono (now e))) =
               ?a @ takeWhile (\<lambda>c. c \<noteq> CHR ''m'') (CHR ''m'' # CHR ''='' # mono (now e))"
      by (intro takeWhile_append2) blast
    then have "takeWhile (\<lambda>c. c \<noteq> CHR ''m'') (?a @ (CHR ''m'' # CHR ''='' # mono (now e))) = ?a"
      by simp
    then show ?thesis using split by simp
  qed
  then show ?thesis using t by simp
qed

theorem C7_witness:
  "Time (buildRecord initial_config example_env ''warn'' (MString [])) =
     ''2021-03-01 12:00:00.123456789 +0100 CET ''"
proof -
  have m1: "CHR ''m'' \<notin> set (date_time (now example_env))" by code_simp
  have m2: "CHR ''m'' \<notin> set (zone (now example_env))" by code_simp
  have v: "date_time (now example_env) @ frac (nsec (now example_env)) @ '' '' @
           zone (now example_env) @ '' '' = ''2021-03-01 12:00:00.123456789 +0100 CET ''"
    by code_simp
  have "Time (buildRecord initial_config example_env ''warn'' (MString [])) =
          date_time (now example_env) @ frac (nsec (now example_env)) @ '' '' @
          zone (now example_env) @ '' ''"
    using C7_time_is_clock_text_before_monotonic_reading
            [of initial_config example_env "''warn''" "MString []"] m1 m2
    by blast
  also note v
  finally show ?thesis .
qed

text \<open>The claim as it is written fails: at a clock reading with 123456789 nanoseconds the
  time field carries the fraction, and it differs from the field for the same reading
  truncated to the second.\<close>

theorem C7_counterexample:
  "Time (buildRecord initial_config example_env ''info'' (MString ''hi'')) =
     ''2021-03-01 12:00:00.123456789 +0100 CET ''
   \<and> Time (buildRecord initial_config (example_env\<lparr>now := example_time\<lparr>nsec := 0\<rparr>\<rparr>) ''info''
              (MString ''hi'')) = ''2021-03-01 12:00:00 +0100 CET ''
   \<and> composeLog initial_config example_env ''info'' [GStr ''hi''] =
       Ok ''{\"level\":\"info\",\"message\":\"hi\",\"time\":\"2021-03-01 12:00:00.123456789 +0100 CET \"}''"
  by code_simp



subsection \<open>Writing to the sink\<close>

text \<open>
  Claim C10. An emitted call hands the rendered record to \<open>fmt.Fprintf\<close> as the format, with
  no operands: what the sink receives is the record as the formatter rewrites it. When the
  record contains a percent sign the bytes written differ from the record; when it contains
  none they are the record.
\<close>

theorem C10_record_is_written_as_format:
  assumes "logLevels label \<ge> logLevel cfg"
      and "composeLog cfg e label message = Ok logRecord"
  shows "printLog cfg e w label message = Ok (w @ [doPrintf0 logRecord])
       \<and> (CHR ''%'' \<in> set logRecord \<longrightarrow> doPrintf0 logRecord \<noteq> logRecord)
       \<and> (CHR ''%'' \<notin> set logRecord \<longrightarrow> doPrintf0 logRecord = logRecord)"
  using assms doPrintf0_changes_percent doPrintf0_no_percent
  by (simp add: printLog_def)

theorem C10_witness:
  "printLog initial_config example_env [] ''info'' [GStr ''100%''] =
     Ok [''{\"level\":\"info\",\"message\":\"100%!\"(MISSING),\"time\":\"2021-03-01 12:00:00.123456789 +0100 CET \"}'']
   \<and> composeLog initial_config example_env ''info'' [GStr ''100%''] =
       Ok ''{\"level\":\"info\",\"message\":\"100%\",\"time\":\"2021-03-01 12:00:00.123456789 +0100 CET \"}''"
proof -
  have l: "logLevels ''info'' \<ge> logLevel initial_config"
    by (simp add: logLevels_known initial_config_def level_defs)
  have h: "composeLog initial_config example_env ''info'' [GStr ''100%''] =
     Ok ''{\"level\":\"info\",\"message\":\"100%\",\"time\":\"2021-03-01 12:00:00.123456789 +0100 CET \"}''"
    by code_simp
  have f: "doPrintf0 ''{\"level\":\"info\",\"message\":\"100%\",\"time\":\"2021-03-01 12:00:00.123456789 +0100 CET \"}'' =
     ''{\"level\":\"info\",\"message\":\"100%!\"(MISSING),\"time\":\"2021-03-01 12:00:00.123456789 +0100 CET \"}''"
    by code_simp
  show ?thesis
    using C10_record_is_written_as_format [OF l h, of "[]"] h f by simp
qed



subsection \<open>Redaction\<close>

text \<open>
  Claim C2. The claim says that with redaction enabled a configured field that holds a
  string shows the mask in the output, that other fields are unchanged and that the message
  is a native object. In the code the pattern ends the value at the first quote it meets.
  A struct whose password is \<open>a"b\<close> is serialized with an escaped quote: the match stops
  there, the rest of the secret stays in the text, the text is no longer JSON, and the
  message is a Go string and not an object. The same happens for the string argument with
  that text. And in a valid object with a space before the colon nothing is masked.
\<close>

theorem C2_escaped_quote_leaves_secret_and_breaks_json:
  "composeMessage redacting_config
     [GOther ''{a\"b}'' (Some (''{\"password\":\"a'' @ [CHR 0x5C] @ ''\"b\"}''))] =
     Ok (MString ''{\"password\": \"**********\"b\"}'')
   \<and> json_Valid (''{\"password\":\"a'' @ [CHR 0x5C] @ ''\"b\"}'')
   \<and> composeMessage redacting_config [GStr (''{\"password\":\"a'' @ [CHR 0x5C] @ ''\"b\"}'')] =
       Ok (MString ''{\"password\": \"**********\"b\"}'')
   \<and> composeMessage redacting_config [GStr ''{\"password\" : \"secret\"}''] =
       Ok (MParsed (JObj [(''password'', JStr ''secret'')]))"
  by code_simp

end
